theory Spec2Isabelle
  imports Complex_Main
begin

section \<open>The SOCD axis engine (src/macros/socd.py, class Axis)\<close>

text \<open>
  An axis is a group of keys of which the engine lets one through. The Python object keeps
  three dictionaries over the same keys (\<open>down\<close>, \<open>out\<close>, \<open>t0\<close>); they are built by
  a comprehension over \<open>keys\<close>, so their iteration order is the order of the first
  occurrence of each key in \<open>keys\<close>. The model keeps the key list and reads each dictionary
  as a total function that is only ever consulted on the keys of the axis.
  Time stamps and delays are Python floats; they are only compared and subtracted here, and the
  model takes them as reals. Every reading of \<open>time.monotonic()\<close> is an argument of the
  function that makes it.
\<close>

datatype axis_mode = Recent | First | Neutral | Priority | Combine | Invert | Sticky | Toggle

record axis =
  keys :: "int list"
  mode :: axis_mode
  down :: "int \<Rightarrow> bool"
  out :: "int \<Rightarrow> bool"
  last' :: "int option"
  t0 :: "int \<Rightarrow> real"
  priority :: "int list"
  swap_delay :: real
  last_switch_time :: real
  timeout_neutral :: real
  conflict_start :: real
  toggle_active :: "int option"

text \<open>The keys of a dictionary built from a list: first occurrences, in order.\<close>

definition dict_keys :: "'a list \<Rightarrow> 'a list" where
  "dict_keys ks = rev (remdups (rev ks))"

text \<open>\<open>Axis.__init__\<close>; the priority names are already resolved to codes.\<close>

definition new_axis ::
  "int list \<Rightarrow> axis_mode \<Rightarrow> int list \<Rightarrow> real option \<Rightarrow> real option \<Rightarrow> axis" where
  "new_axis ks m prio swap_delay_ms timeout_neutral_ms =
     \<lparr> keys = ks, mode = m, down = (\<lambda>k. False), out = (\<lambda>k. False), last' = None,
       t0 = (\<lambda>k. 0), priority = prio,
       swap_delay = (case swap_delay_ms of None \<Rightarrow> 0 | Some v \<Rightarrow> v) / 1000,
       last_switch_time = 0,
       timeout_neutral = (case timeout_neutral_ms of None \<Rightarrow> 0 | Some v \<Rightarrow> v) / 1000,
       conflict_start = 0, toggle_active = None \<rparr>"

definition pressed :: "axis \<Rightarrow> int list" where
  "pressed ax = filter (down ax) (dict_keys (keys ax))"

definition pressed_count :: "axis \<Rightarrow> nat" where
  "pressed_count ax = length (filter (\<lambda>k. down ax k) (dict_keys (keys ax)))"

text \<open>\<open>Axis.on_key\<close>: returns whether the key belongs to the axis, and the new state.\<close>

definition on_key :: "axis \<Rightarrow> int \<Rightarrow> bool \<Rightarrow> real \<Rightarrow> bool \<times> axis" where
  "on_key ax code is_down now =
     (if code \<notin> set (keys ax) then (False, ax)
      else if mode ax = Toggle then
        (True,
         if is_down then
           (if toggle_active ax = Some code then ax\<lparr>toggle_active := None\<rparr>
            else ax\<lparr>toggle_active := Some code\<rparr>)
         else ax)
      else
        (let ax1 = ax\<lparr>down := (down ax)(code := is_down)\<rparr>;
             ax2 = (if is_down then
                      ax1\<lparr>last' := Some code,
                          t0 := (if t0 ax1 code = 0 then (t0 ax1)(code := now) else t0 ax1)\<rparr>
                    else ax1\<lparr>t0 := (t0 ax1)(code := 0)\<rparr>);
             ax3 = (if 2 \<le> pressed_count ax2 then
                      (if conflict_start ax2 = 0 then ax2\<lparr>conflict_start := now\<rparr> else ax2)
                    else ax2\<lparr>conflict_start := 0\<rparr>)
         in (True, ax3)))"

definition debounce_ok :: "axis \<Rightarrow> real \<Rightarrow> bool" where
  "debounce_ok ax now =
     (if swap_delay ax \<le> 0 then True else swap_delay ax \<le> now - last_switch_time ax)"

definition note_switch :: "axis \<Rightarrow> real \<Rightarrow> axis" where
  "note_switch ax now = ax\<lparr>last_switch_time := now\<rparr>"

definition timeout_neutral_active :: "axis \<Rightarrow> real \<Rightarrow> bool" where
  "timeout_neutral_active ax now =
     (if timeout_neutral ax \<le> 0 then False
      else if pressed_count ax < 2 then False
      else timeout_neutral ax \<le> now - conflict_start ax)"

text \<open>
  Python's \<open>min(xs, key=f)\<close> and \<open>max(xs, key=f)\<close> return the first extremal element;
  on an empty list they raise, which is \<open>None\<close> here (\<open>pick\<close> calls them with at least two
  pressed keys).
\<close>

definition py_min :: "('a \<Rightarrow> real) \<Rightarrow> 'a list \<Rightarrow> 'a option" where
  "py_min f xs =
     (case xs of [] \<Rightarrow> None
      | x # ys \<Rightarrow> Some (fold (\<lambda>y best. if f y < f best then y else best) ys x))"

definition py_max :: "('a \<Rightarrow> real) \<Rightarrow> 'a list \<Rightarrow> 'a option" where
  "py_max f xs =
     (case xs of [] \<Rightarrow> None
      | x # ys \<Rightarrow> Some (fold (\<lambda>y best. if f best < f y then y else best) ys x))"

text \<open>The dictionaries \<open>pick\<close> returns, as association lists in key order.\<close>

definition mirror :: "axis \<Rightarrow> (int \<times> bool) list" where
  "mirror ax = map (\<lambda>k. (k, k \<in> set (pressed ax))) (dict_keys (keys ax))"

definition only_key :: "axis \<Rightarrow> int option \<Rightarrow> (int \<times> bool) list" where
  "only_key ax chosen = map (\<lambda>k. (k, Some k = chosen)) (dict_keys (keys ax))"

definition all_off :: "axis \<Rightarrow> (int \<times> bool) list" where
  "all_off ax = map (\<lambda>k. (k, False)) (dict_keys (keys ax))"

definition out_copy :: "axis \<Rightarrow> (int \<times> bool) list" where
  "out_copy ax = map (\<lambda>k. (k, out ax k)) (dict_keys (keys ax))"

text \<open>\<open>self.out.get(chosen, False)\<close>.\<close>

definition out_get :: "axis \<Rightarrow> int option \<Rightarrow> bool" where
  "out_get ax chosen = (case chosen of None \<Rightarrow> False | Some k \<Rightarrow> k \<in> set (keys ax) \<and> out ax k)"

text \<open>\<open>self.last if self.last in pressed else max(pressed, key=t0)\<close>.\<close>

definition recent_choice :: "axis \<Rightarrow> int option" where
  "recent_choice ax =
     (case last' ax of
        Some l \<Rightarrow> if l \<in> set (pressed ax) then Some l else py_max (t0 ax) (pressed ax)
      | None \<Rightarrow> py_max (t0 ax) (pressed ax))"

text \<open>
  \<open>Axis.pick\<close>. The three real arguments are the clock readings of
  \<open>_timeout_neutral_active\<close>, \<open>_debounce_ok\<close> and \<open>_note_switch\<close>, in that order.
  The result is the desired output dictionary and the state (only \<open>last_switch_time\<close>
  can change).
\<close>

definition pick :: "axis \<Rightarrow> real \<Rightarrow> real \<Rightarrow> real \<Rightarrow> (int \<times> bool) list \<times> axis" where
  "pick ax t_timeout t_debounce t_switch =
     (if mode ax = Combine then (mirror ax, ax)
      else if mode ax = Toggle then (only_key ax (toggle_active ax), ax)
      else if mode ax = Neutral \<or> timeout_neutral_active ax t_timeout then
        ((if 2 \<le> length (pressed ax) then all_off ax else mirror ax), ax)
      else if length (pressed ax) \<le> 1 then (mirror ax, ax)
      else if mode ax = Sticky then
        (let current_winner = find (out ax) (dict_keys (keys ax)) in
         if current_winner \<noteq> None \<and> list_ex (down ax) (dict_keys (keys ax))
         then (only_key ax current_winner, ax)
         else if \<not> debounce_ok ax t_debounce then
           ((if current_winner \<noteq> None \<and> current_winner \<noteq> Some 0
             then only_key ax current_winner else all_off ax), ax)
         else (only_key ax (recent_choice ax), note_switch ax t_switch))
      else if mode ax = First then (only_key ax (py_min (t0 ax) (pressed ax)), ax)
      else if mode ax = Invert then
        (if \<not> debounce_ok ax t_debounce then (out_copy ax, ax)
         else
           (let chosen = py_min (t0 ax) (pressed ax) in
            (only_key ax chosen,
             if \<not> out_get ax chosen then note_switch ax t_switch else ax)))
      else if mode ax = Priority then
        (if \<not> debounce_ok ax t_debounce then (out_copy ax, ax)
         else
           (case find (\<lambda>k. k \<in> set (pressed ax)) (priority ax) of
              Some k \<Rightarrow>
                (only_key ax (Some k),
                 if \<not> out_get ax (Some k) then note_switch ax t_switch else ax)
            | None \<Rightarrow>
                (let chosen = recent_choice ax in
                 (only_key ax chosen,
                  if \<not> out_get ax chosen then note_switch ax t_switch else ax))))
      else
        (if \<not> debounce_ok ax t_debounce then (out_copy ax, ax)
         else
           (let chosen = recent_choice ax in
            (only_key ax chosen,
             if \<not> out_get ax chosen then note_switch ax t_switch else ax))))"


section \<open>The event loop of the cleaner (SOCDCleaner.loop, SOCDCleaner._cleanup)\<close>

text \<open>
  What the loop does to the outside is the sequence of calls it makes on the virtual device
  \<open>self.ui\<close> and on the physical devices. \<open>EV_KEY\<close> is the event type of key events
  in the Linux input interface.
\<close>

datatype dev_op =
    Write int int int
  | Syn
  | Close
  | DevUngrab nat
  | DevClose nat

definition EV_KEY :: int where
  "EV_KEY = 1"

text \<open>The clock readings of one pass through the body of the loop for one axis.\<close>

record clock =
  at_on_key :: real
  at_timeout :: real
  at_debounce :: real
  at_switch :: real

text \<open>
  Lines 235 to 240: \<open>for k, want in desired.items()\<close> writes each changed entry into
  \<open>ax.out\<close> and, when there is a virtual device, emits the transition.
\<close>

definition emit_change :: "bool \<Rightarrow> int \<times> bool \<Rightarrow> axis \<times> dev_op list \<Rightarrow> axis \<times> dev_op list" where
  "emit_change ui kw st =
     (case kw of (k, want) \<Rightarrow> case st of (a, ops) \<Rightarrow>
        if out a k \<noteq> want
        then (a\<lparr>out := (out a)(k := want)\<rparr>,
              ops @ (if ui then [Write EV_KEY k (if want then 1 else 0)] else []))
        else (a, ops))"

definition emit_changes :: "bool \<Rightarrow> axis \<Rightarrow> (int \<times> bool) list \<Rightarrow> axis \<times> dev_op list" where
  "emit_changes ui ax desired = fold (emit_change ui) desired (ax, [])"

text \<open>Lines 232 to 242: the body of \<open>for ax in self.bykey[code]\<close>.\<close>

definition axis_step :: "bool \<Rightarrow> axis \<Rightarrow> int \<Rightarrow> bool \<Rightarrow> clock \<Rightarrow> axis \<times> dev_op list" where
  "axis_step ui ax code is_down c =
     (let ax1 = snd (on_key ax code is_down (at_on_key c));
          (desired, ax2) = pick ax1 (at_timeout c) (at_debounce c) (at_switch c);
          (ax3, ops) = emit_changes ui ax2 desired
      in (ax3, ops @ (if ui then [Syn] else [])))"

text \<open>One axis driven by a sequence of key edges, each with its clock readings.\<close>

fun run_axis :: "axis \<Rightarrow> (int \<times> bool \<times> clock) list \<Rightarrow> axis" where
  "run_axis ax [] = ax"
| "run_axis ax ((code, is_down, c) # es) = run_axis (fst (axis_step True ax code is_down c)) es"

text \<open>The keys of the group whose last emitted state is "held".\<close>

definition held_out :: "axis \<Rightarrow> int list" where
  "held_out ax = filter (out ax) (dict_keys (keys ax))"

text \<open>
  The cleaner: its axes, whether the virtual device exists, and the number of physical
  devices. \<open>self.bykey[k]\<close> receives an axis once for each occurrence of \<open>k\<close> in the keys of
  that axis; axes are mutable objects, so the model lists their positions in \<open>self.axes\<close>.
\<close>

record cleaner =
  axes :: "axis list"
  ui :: bool
  devs :: nat

definition bykey :: "cleaner \<Rightarrow> int \<Rightarrow> nat list" where
  "bykey cl code =
     concat (map (\<lambda>i. replicate (count_list (keys (axes cl ! i)) code) i) [0..<length (axes cl)])"

text \<open>
  Lines 219 to 248: one event \<open>(type, code, value)\<close> read from a device. \<open>clk j\<close> gives the
  clock readings for the \<open>j\<close>-th axis of \<open>self.bykey[code]\<close>.
\<close>

definition loop_event ::
  "cleaner \<Rightarrow> int \<times> int \<times> int \<Rightarrow> (nat \<Rightarrow> clock) \<Rightarrow> cleaner \<times> dev_op list" where
  "loop_event cl ev clk =
     (case ev of (type, code, val) \<Rightarrow>
        if type \<noteq> EV_KEY then (cl, if ui cl then [Write type code val, Syn] else [])
        else if bykey cl code \<noteq> [] then
          (if val = 0 \<or> val = 1 then
             fold (\<lambda>(j, i) (c, ops).
                     (let (ax', w) = axis_step (ui c) (axes c ! i) code (val = 1) (clk j)
                      in (c\<lparr>axes := (axes c)[i := ax']\<rparr>, ops @ w)))
                  (enumerate 0 (bykey cl code)) (cl, [])
           else (cl, []))
        else (cl, if ui cl then [Write EV_KEY code val, Syn] else []))"

text \<open>\<open>SOCDCleaner._cleanup\<close>.\<close>

definition cleanup :: "cleaner \<Rightarrow> dev_op list" where
  "cleanup cl =
     (if ui cl then
        concat (map (\<lambda>ax. map (\<lambda>k. Write EV_KEY k 0) (held_out ax)) (axes cl)) @ [Syn]
      else [])
     @ concat (map (\<lambda>i. [DevUngrab i, DevClose i]) [0..<devs cl])
     @ (if ui cl then [Close] else [])"


section \<open>The strafer (src/macros/strafer.py)\<close>

text \<open>
  Speeds, velocities and times are Python floats, taken as reals: the model is of the
  arithmetic the code writes down, not of its rounding. The smoothing step of the velocity is
  modelled a second time with the rounding of the doubles, since whether the velocity passes
  the desired velocity depends on it. The numeric codes are those of the Linux input
  interface, which the code reads from \<open>evdev.ecodes\<close>.
\<close>

definition EV_REL :: int where "EV_REL = 2"
definition REL_X :: int where "REL_X = 0"
definition REL_WHEEL :: int where "REL_WHEEL = 8"
definition REL_WHEEL_HI_RES :: int where "REL_WHEEL_HI_RES = 11"
definition KEY_A :: int where "KEY_A = 30"
definition KEY_D :: int where "KEY_D = 32"
definition KEY_SPACE :: int where "KEY_SPACE = 57"
definition BTN_MISC :: int where "BTN_MISC = 256"
definition BTN_GEAR_UP :: int where "BTN_GEAR_UP = 337"

subsection \<open>Utilities and easing curves (lines 18 to 26)\<close>

definition clamp :: "real \<Rightarrow> real \<Rightarrow> real \<Rightarrow> real" where
  "clamp v lo hi = (if v < lo then lo else if v > hi then hi else v)"

definition sgn_py :: "int \<Rightarrow> int" where
  "sgn_py x = (if x < 0 then - 1 else if x > 0 then 1 else 0)"





subsection \<open>Configuration and state\<close>

text \<open>
  The configuration fields the modelled functions read, under the names of the configuration
  keys, and the attributes \<open>__init__\<close> derives from them (key codes, \<open>space_sched\<close>,
  \<open>space_tick_s\<close>, \<open>space_allow_up\<close>). An optional key that is not configured is
  \<open>None\<close>.
\<close>

record scfg =
  key_left :: int
  key_right :: int
  key_pause :: "int option"
  key_speed :: "int option"
  key_slow :: "int option"
  key_wheel_t :: "int option"
  space_key :: int
  stop_btn :: int
  SCROLL_SPEED_STEP :: real
  MIN_SPEED_PX_PER_SEC :: real
  MAX_SPEED_PX_PER_SEC :: real
  SPEEDUP_MULTIPLIER :: real
  SLOWDOWN_MULTIPLIER :: real
  ACCEL_TIME_S :: real
  DECEL_TIME_S :: real
  EASING :: string
  MIN_FRAME_TIME :: real
  DEADZONE_VEL_PX_S :: real
  START_MOVE_DELAY_S :: real
  SPACE_MIRROR_TO_GAME :: bool
  SPACE_TIMED_SPEED_SCHEDULE :: "(real \<times> real) list"
  space_tick_s :: real
  space_allow_up :: bool
  SPACE_RESTART_ON_PRESS :: bool
  SPACE_STOP_ON_RELEASE :: bool

text \<open>\<open>self.space_sched\<close>: the configured schedule, sorted by time offset (a stable sort).\<close>

definition space_sched :: "scfg \<Rightarrow> (real \<times> real) list" where
  "space_sched cfg = sort_key fst (SPACE_TIMED_SPEED_SCHEDULE cfg)"

datatype direction = MoveLeft | MoveRight

datatype pressed_name = PressedA | PressedD

text \<open>\<open>self.seg_target\<close> is \<open>None\<close>, the pair \<open>("__WAIT__", t)\<close> or a float.\<close>

datatype seg_target = NoTarget | Wait real | Target real

record strafer =
  dir_mode :: "direction option"
  held_key_code :: "int option"
  vel :: real
  speedup :: bool
  slowdown :: bool
  move_delay_until :: real
  mouse_paused :: bool
  wheel_adjust_mode :: bool
  a_down :: bool
  d_down :: bool
  last_pressed :: "pressed_name option"
  space_down :: bool
  space_press_t :: real
  space_original_speed :: real
  seg_idx :: int
  seg_start_t :: real
  seg_end_t :: real
  seg_start_speed :: real
  seg_target :: seg_target
  seg_ticks_total :: int
  seg_tick_idx :: int
  next_tick_time :: real
  current_speed :: real

text \<open>The state \<open>__init__\<close> builds; \<open>speed\<close> is \<open>SPEED_PX_PER_SEC_DEFAULT\<close>.\<close>

definition new_strafer :: "real \<Rightarrow> strafer" where
  "new_strafer speed =
     \<lparr> dir_mode = None, held_key_code = None, vel = 0, speedup = False, slowdown = False,
       move_delay_until = 0, mouse_paused = False, wheel_adjust_mode = True,
       a_down = False, d_down = False, last_pressed = None,
       space_down = False, space_press_t = 0, space_original_speed = 0,
       seg_idx = - 1, seg_start_t = 0, seg_end_t = 0, seg_start_speed = 0,
       seg_target = NoTarget, seg_ticks_total = 0, seg_tick_idx = 0, next_tick_time = 0,
       current_speed = speed \<rparr>"

text \<open>Calls on the two virtual devices and on the physical input devices.\<close>

datatype strafer_op =
    KbWrite int int int
  | KbSyn
  | KbClose
  | MouseWrite int int int
  | MouseSyn
  | MouseClose
  | InUngrab nat
  | InClose nat

text \<open>The exceptions the modelled arithmetic and indexing can raise.\<close>

datatype py_error = IndexError | ZeroDivisionError

text \<open>Python's \<open>xs[i]\<close>: a negative index counts from the end.\<close>

definition py_index :: "'a list \<Rightarrow> int \<Rightarrow> py_error + 'a" where
  "py_index xs i =
     (if 0 \<le> i \<and> i < int (length xs) then Inr (xs ! nat i)
      else if i < 0 \<and> - int (length xs) \<le> i then Inr (xs ! nat (int (length xs) + i))
      else Inl IndexError)"

subsection \<open>Virtual key helpers and direction (lines 352 to 399)\<close>

definition press_and_hold :: "scfg \<Rightarrow> strafer \<Rightarrow> int \<Rightarrow> real \<Rightarrow> strafer \<times> strafer_op list" where
  "press_and_hold cfg s code now =
     (if held_key_code s = Some code then (s, [])
      else
        (s\<lparr>held_key_code := Some code, move_delay_until := now + START_MOVE_DELAY_S cfg\<rparr>,
         (case held_key_code s of None \<Rightarrow> [] | Some h \<Rightarrow> [KbWrite EV_KEY h 0, KbSyn])
         @ [KbWrite EV_KEY code 1, KbSyn]))"

definition release_hold :: "strafer \<Rightarrow> strafer \<times> strafer_op list" where
  "release_hold s =
     (case held_key_code s of
        None \<Rightarrow> (s, [])
      | Some h \<Rightarrow> (s\<lparr>held_key_code := None\<rparr>, [KbWrite EV_KEY h 0, KbSyn]))"

definition resolve_mode :: "strafer \<Rightarrow> direction option" where
  "resolve_mode s =
     (if a_down s \<and> d_down s then
        (if last_pressed s = Some PressedA then Some MoveLeft else Some MoveRight)
      else if a_down s then Some MoveLeft
      else if d_down s then Some MoveRight
      else None)"

definition apply_mode ::
  "scfg \<Rightarrow> strafer \<Rightarrow> direction option \<Rightarrow> real \<Rightarrow> strafer \<times> strafer_op list" where
  "apply_mode cfg s new_mode now =
     (if new_mode = dir_mode s then (s, [])
      else
        (let s1 = s\<lparr>dir_mode := new_mode\<rparr> in
         case new_mode of
           Some MoveLeft \<Rightarrow> press_and_hold cfg s1 KEY_A now
         | Some MoveRight \<Rightarrow> press_and_hold cfg s1 KEY_D now
         | None \<Rightarrow> (case release_hold s1 of (s2, ops) \<Rightarrow> (s2\<lparr>vel := 0\<rparr>, ops))))"

definition stop_motion_only :: "strafer \<Rightarrow> bool \<Rightarrow> strafer" where
  "stop_motion_only s paused =
     (if paused then s\<lparr>mouse_paused := paused, vel := 0\<rparr> else s\<lparr>mouse_paused := paused\<rparr>)"

definition toggle_wheel_adjust :: "strafer \<Rightarrow> strafer" where
  "toggle_wheel_adjust s = s\<lparr>wheel_adjust_mode := \<not> wheel_adjust_mode s\<rparr>"

definition bump_speed :: "scfg \<Rightarrow> strafer \<Rightarrow> int \<Rightarrow> strafer" where
  "bump_speed cfg s steps =
     (if steps = 0 then s
      else
        (let s1 = s\<lparr>current_speed :=
                     clamp (current_speed s + real_of_int steps * SCROLL_SPEED_STEP cfg)
                       (MIN_SPEED_PX_PER_SEC cfg) (MAX_SPEED_PX_PER_SEC cfg)\<rparr>
         in if \<not> space_down s1 then s1\<lparr>space_original_speed := current_speed s1\<rparr> else s1))"


subsection \<open>The timed speed ramp (lines 432 to 582)\<close>

definition space_reset :: "strafer \<Rightarrow> strafer" where
  "space_reset s =
     s\<lparr>seg_idx := - 1, seg_start_t := 0, seg_end_t := 0, seg_start_speed := 0,
       seg_target := NoTarget, seg_ticks_total := 0, seg_tick_idx := 0, next_tick_time := 0\<rparr>"

text \<open>
  Lines 508 to 524 of \<open>_space_prepare_segment\<close>: the fields of the segment that starts at
  checkpoint \<open>next_ix\<close>.
\<close>

definition segment_fields ::
  "scfg \<Rightarrow> strafer \<Rightarrow> real \<Rightarrow> int \<Rightarrow> real \<Rightarrow> real \<Rightarrow> real \<Rightarrow> strafer" where
  "segment_fields cfg s now next_ix stage_abs_start segment_end stage_target =
     (let s1 = s\<lparr>seg_idx := next_ix, seg_start_t := stage_abs_start, seg_end_t := segment_end,
                 seg_start_speed := current_speed s, seg_target := Target stage_target\<rparr>;
          total_dur = max 0 (seg_end_t s1 - seg_start_t s1);
          s2 = s1\<lparr>seg_ticks_total :=
                     max 1 \<lfloor>total_dur / max (space_tick_s cfg) (1 / 10 ^ 6)\<rfloor>\<rparr>
      in if now \<le> seg_start_t s2
         then s2\<lparr>seg_tick_idx := 0, next_tick_time := seg_start_t s2 + space_tick_s cfg\<rparr>
         else
           (let elapsed = now - seg_start_t s2;
                already = \<lfloor>elapsed / max (space_tick_s cfg) (1 / 10 ^ 6)\<rfloor>;
                s3 = s2\<lparr>seg_tick_idx := min already (seg_ticks_total s2)\<rparr>
            in s3\<lparr>next_tick_time :=
                     seg_start_t s3 + real_of_int (seg_tick_idx s3 + 1) * space_tick_s cfg\<rparr>))"

text \<open>Lines 498 to 502: where the segment that starts at checkpoint \<open>next_ix\<close> ends.\<close>

definition segment_end_of :: "scfg \<Rightarrow> strafer \<Rightarrow> real \<Rightarrow> int \<Rightarrow> py_error + real" where
  "segment_end_of cfg s now next_ix =
     (if next_ix + 1 < int (length (space_sched cfg)) then
        (case py_index (space_sched cfg) (next_ix + 1) of
           Inl err \<Rightarrow> Inl err
         | Inr (next_rel_t, _) \<Rightarrow> Inr (space_press_t s + next_rel_t))
      else Inr (now + space_tick_s cfg))"

function space_prepare_segment :: "scfg \<Rightarrow> strafer \<Rightarrow> real \<Rightarrow> py_error + strafer" where
  "space_prepare_segment cfg s now =
     (if int (length (space_sched cfg)) \<le> seg_idx s + 1 then Inr (s\<lparr>seg_target := NoTarget\<rparr>)
      else
        (case py_index (space_sched cfg) (seg_idx s + 1) of
           Inl err \<Rightarrow> Inl err
         | Inr (stage_rel_t, stage_target) \<Rightarrow>
             if now < space_press_t s + stage_rel_t then
               Inr (s\<lparr>seg_start_t := space_press_t s + stage_rel_t,
                      seg_end_t := space_press_t s + stage_rel_t,
                      seg_target := Wait (space_press_t s + stage_rel_t),
                      next_tick_time := space_press_t s + stage_rel_t\<rparr>)
             else
               (case segment_end_of cfg s now (seg_idx s + 1) of
                  Inl err \<Rightarrow> Inl err
                | Inr segment_end \<Rightarrow>
                    if \<not> space_allow_up cfg \<and> stage_target > current_speed s then
                      space_prepare_segment cfg (s\<lparr>seg_idx := seg_idx s + 1\<rparr>) now
                    else if \<not> space_allow_up cfg
                            \<and> current_speed s \<le> stage_target + 1 / 10 ^ 9 then
                      space_prepare_segment cfg
                        (segment_fields cfg s now (seg_idx s + 1)
                           (space_press_t s + stage_rel_t) segment_end stage_target) now
                    else
                      Inr (segment_fields cfg s now (seg_idx s + 1)
                             (space_press_t s + stage_rel_t) segment_end stage_target))))"
  by pat_completeness auto
termination
  by (relation "measure (\<lambda>(cfg, s, now). nat (int (length (space_sched cfg)) - seg_idx s))")
     (auto simp: segment_fields_def Let_def)

text \<open>\<open>_space_start\<close>; \<open>now\<close> is its reading of \<open>time.perf_counter()\<close>.\<close>

definition space_start :: "scfg \<Rightarrow> strafer \<Rightarrow> real \<Rightarrow> py_error + strafer" where
  "space_start cfg s now =
     (case space_sched cfg of
        [] \<Rightarrow> Inr s
      | (t0', s0') # _ \<Rightarrow>
          (let s1 = s\<lparr>space_press_t := now, space_down := True\<rparr>;
               s2 = (if space_original_speed s1 = 0
                     then s1\<lparr>space_original_speed := current_speed s1\<rparr> else s1);
               s3 = space_reset s2;
               s4 = (if t0' \<le> 1 / 10 ^ 6 then
                       (let tgt = (if space_allow_up cfg \<or> s0' \<le> current_speed s3
                                   then s0' else current_speed s3)
                        in s3\<lparr>current_speed :=
                                 clamp tgt (MIN_SPEED_PX_PER_SEC cfg) (MAX_SPEED_PX_PER_SEC cfg),
                               seg_idx := 0\<rparr>)
                     else s3\<lparr>seg_idx := - 1\<rparr>)
           in space_prepare_segment cfg s4 now))"

definition space_stop :: "scfg \<Rightarrow> strafer \<Rightarrow> strafer" where
  "space_stop cfg s =
     (let s1 = s\<lparr>space_down := False\<rparr>;
          s2 = (if space_original_speed s1 > 0 then
                  s1\<lparr>current_speed :=
                       clamp (space_original_speed s1)
                         (MIN_SPEED_PX_PER_SEC cfg) (MAX_SPEED_PX_PER_SEC cfg),
                     space_original_speed := 0\<rparr>
                else s1)
      in space_reset s2)"

text \<open>Lines 550 to 573: the body of the \<open>while\<close> loop of \<open>_space_tick\<close>.\<close>

definition space_tick_body :: "scfg \<Rightarrow> strafer \<Rightarrow> real \<Rightarrow> strafer" where
  "space_tick_body cfg s target =
     (let start = seg_start_speed s;
          new_speed =
            (if \<not> space_allow_up cfg then
               (let total_drop = max 0 (start - target);
                    step = total_drop / real_of_int (seg_ticks_total s);
                    n = start - step * real_of_int (seg_tick_idx s + 1)
                in if n < target then target else n)
             else
               (let total_delta = target - start;
                    step = total_delta / real_of_int (seg_ticks_total s);
                    n = start + step * real_of_int (seg_tick_idx s + 1)
                in if seg_tick_idx s + 1 = seg_ticks_total s then target else n))
      in s\<lparr>current_speed :=
             clamp new_speed (MIN_SPEED_PX_PER_SEC cfg) (MAX_SPEED_PX_PER_SEC cfg),
           seg_tick_idx := seg_tick_idx s + 1,
           next_tick_time := next_tick_time s + space_tick_s cfg\<rparr>)"

text \<open>
  The \<open>while\<close> loop of lines 547 to 573. Dividing by \<open>seg_ticks_total\<close> raises when it
  is zero.
\<close>

function space_tick_loop :: "scfg \<Rightarrow> strafer \<Rightarrow> real \<Rightarrow> py_error + strafer" where
  "space_tick_loop cfg s now =
     (case seg_target s of
        Target target \<Rightarrow>
          if seg_tick_idx s < seg_ticks_total s \<and> next_tick_time s \<le> now then
            (if seg_ticks_total s = 0 then Inl ZeroDivisionError
             else space_tick_loop cfg (space_tick_body cfg s target) now)
          else Inr s
      | Wait t \<Rightarrow> Inr s
      | NoTarget \<Rightarrow> Inr s)"
  by pat_completeness auto
termination
  by (relation "measure (\<lambda>(cfg, s, now). nat (seg_ticks_total s - seg_tick_idx s))")
     (auto simp: space_tick_body_def Let_def)

text \<open>\<open>_space_tick\<close>.\<close>

definition space_tick :: "scfg \<Rightarrow> strafer \<Rightarrow> real \<Rightarrow> py_error + strafer" where
  "space_tick cfg s now =
     (if \<not> space_down s then Inr s
      else
        (case seg_target s of
           Wait t \<Rightarrow> if t \<le> now then space_prepare_segment cfg s now else Inr s
         | _ \<Rightarrow>
             if seg_target s = NoTarget \<and> seg_idx s + 1 < int (length (space_sched cfg))
             then space_prepare_segment cfg s now
             else
               (case space_tick_loop cfg s now of
                  Inl err \<Rightarrow> Inl err
                | Inr s1 \<Rightarrow>
                    (case seg_target s1 of
                       Target target \<Rightarrow>
                         if seg_ticks_total s1 \<le> seg_tick_idx s1 then
                           space_prepare_segment cfg
                             (s1\<lparr>current_speed :=
                                   clamp target (MIN_SPEED_PX_PER_SEC cfg)
                                     (MAX_SPEED_PX_PER_SEC cfg)\<rparr>) now
                         else Inr s1
                     | _ \<Rightarrow> Inr s1))))"


subsection \<open>Event handling and shutdown (lines 584 to 703, 790 to 819)\<close>

text \<open>An optional key code is tested for truth before it is compared: code 0 never matches.\<close>

definition is_key :: "int option \<Rightarrow> int \<Rightarrow> bool" where
  "is_key k code = (k \<noteq> None \<and> k \<noteq> Some 0 \<and> k = Some code)"

text \<open>Lines 638 to 648: the key that triggers the ramp.\<close>

definition space_key_event ::
  "scfg \<Rightarrow> strafer \<Rightarrow> int \<Rightarrow> real \<Rightarrow> py_error + strafer \<times> strafer_op list" where
  "space_key_event cfg s val now =
     (case (if val = 1 \<or> val = 2 then
              (if SPACE_RESTART_ON_PRESS cfg \<or> \<not> space_down s
               then space_start cfg s now else Inr s)
            else if val = 0 \<and> SPACE_STOP_ON_RELEASE cfg then Inr (space_stop cfg s)
            else Inr s) of
        Inl err \<Rightarrow> Inl err
      | Inr s1 \<Rightarrow>
          Inr (s1, if SPACE_MIRROR_TO_GAME cfg
                   then [KbWrite EV_KEY (space_key cfg) val, KbSyn] else []))"

text \<open>
  \<open>_handle_event\<close> on the event \<open>(type, code, value)\<close>; \<open>now\<close> is the reading of
  \<open>time.perf_counter()\<close> that \<open>_space_start\<close> or \<open>_press_and_hold\<close> makes.
\<close>

definition handle_event ::
  "scfg \<Rightarrow> strafer \<Rightarrow> int \<times> int \<times> int \<Rightarrow> real \<Rightarrow> py_error + strafer \<times> strafer_op list" where
  "handle_event cfg s ev now =
     (case ev of (type, code, val) \<Rightarrow>
        if type \<noteq> EV_KEY \<and> type \<noteq> EV_REL then Inr (s, [MouseWrite type code val, MouseSyn])
        else if type = EV_REL \<and> wheel_adjust_mode s then
          (if code = REL_WHEEL \<and> val \<noteq> 0 then Inr (bump_speed cfg s val, [])
           else if code \<noteq> REL_WHEEL \<and> code = REL_WHEEL_HI_RES \<and> val \<noteq> 0 then
             Inr (bump_speed cfg s (sgn_py val * max 1 (\<bar>val\<bar> div 120)), [])
           else Inr (s, [MouseWrite type code val, MouseSyn]))
        else if type = EV_REL then Inr (s, [MouseWrite type code val, MouseSyn])
        else if code = stop_btn cfg then
          Inr ((if val = 1 then stop_motion_only s True
                else if val = 0 then stop_motion_only s False else s), [])
        else if is_key (key_wheel_t cfg) code then
          Inr ((if val = 1 then toggle_wheel_adjust s else s), [KbWrite EV_KEY code val, KbSyn])
        else if code = space_key cfg then space_key_event cfg s val now
        else if code = key_left cfg then
          (let s1 = (if val = 1 then s\<lparr>a_down := True, last_pressed := Some PressedA\<rparr>
                     else if val = 0 then s\<lparr>a_down := False\<rparr> else s)
           in Inr (apply_mode cfg s1 (resolve_mode s1) now))
        else if code = key_right cfg then
          (let s1 = (if val = 1 then s\<lparr>d_down := True, last_pressed := Some PressedD\<rparr>
                     else if val = 0 then s\<lparr>d_down := False\<rparr> else s)
           in Inr (apply_mode cfg s1 (resolve_mode s1) now))
        else if is_key (key_pause cfg) code then
          (case (if val = 1
                 then apply_mode cfg (s\<lparr>a_down := False, d_down := False, last_pressed := None\<rparr>)
                        None now
                 else (s, [])) of
             (s1, ops) \<Rightarrow> Inr (s1, ops @ [KbWrite EV_KEY code val, KbSyn]))
        else if is_key (key_speed cfg) code then
          Inr (s\<lparr>speedup := (val = 1 \<or> val = 2)\<rparr>, [KbWrite EV_KEY code val, KbSyn])
        else if is_key (key_slow cfg) code then
          Inr (s\<lparr>slowdown := (val = 1 \<or> val = 2)\<rparr>, [KbWrite EV_KEY code val, KbSyn])
        else if BTN_MISC \<le> code \<and> code \<le> BTN_GEAR_UP then
          Inr (s, [MouseWrite EV_KEY code val, MouseSyn])
        else Inr (s, [KbWrite EV_KEY code val, KbSyn]))"

text \<open>
  \<open>StraferMacro.stop\<close> with \<open>n\<close> input devices: what it does to the devices. It reads
  nothing of the state.
\<close>

definition stop :: "strafer \<Rightarrow> nat \<Rightarrow> strafer_op list" where
  "stop s n = concat (map (\<lambda>i. [InUngrab i, InClose i]) [0..<n]) @ [KbClose, MouseClose]"

subsection \<open>Velocity smoothing (lines 748 to 768 of \<open>_move_loop\<close>)\<close>

definition desired_velocity :: "scfg \<Rightarrow> strafer \<Rightarrow> real" where
  "desired_velocity cfg s =
     (let desired = (case dir_mode s of
                       Some MoveLeft \<Rightarrow> current_speed s
                     | Some MoveRight \<Rightarrow> - current_speed s
                     | None \<Rightarrow> 0)
      in if desired \<noteq> 0 then
           (let d1 = (if speedup s then desired * SPEEDUP_MULTIPLIER cfg else desired)
            in if slowdown s then d1 * SLOWDOWN_MULTIPLIER cfg else d1)
         else desired)"





subsection \<open>The smoothing step in double precision (lines 760 to 766)\<close>

text \<open>
  Python's floats are IEEE 754 doubles: 53 significant bits, every operation rounded to the
  nearest double, a tie to the one with an even significand. \<open>rne\<close> rounds a real to
  the nearest integer in that way and \<open>fl x\<close> is the double nearest to \<open>x\<close>:
  \<open>x\<close> is scaled by the unit in the last place of its binade and rounded. The range of
  the exponent is not bounded: overflow and subnormal numbers are not modelled.
\<close>

definition rne :: "real \<Rightarrow> int" where
  "rne q = (let f = \<lfloor>q\<rfloor>; r = q - of_int f
            in if r < 1 / 2 then f else if r > 1 / 2 then f + 1 else if even f then f else f + 1)"

definition fl :: "real \<Rightarrow> real" where
  "fl x = (if x = 0 then 0
           else let u = 2 powr (of_int \<lfloor>log 2 \<bar>x\<bar>\<rfloor> - 52) in of_int (rne (x / u)) * u)"










subsection \<open>Runs of the strafer\<close>

text \<open>
  What \<open>_move_loop\<close> does to the ramp, frame after frame: it handles the events read
  (\<open>Ev\<close>, with the clock reading of the handler) and calls \<open>_space_tick(now)\<close>
  (\<open>Tick now\<close>). A run ends at the first exception.
\<close>

datatype step = Ev "int \<times> int \<times> int" real | Tick real

fun run_steps :: "scfg \<Rightarrow> strafer \<Rightarrow> step list \<Rightarrow> py_error + strafer" where
  "run_steps cfg s [] = Inr s"
| "run_steps cfg s (Ev e now # rest) =
     (case handle_event cfg s e now of
        Inl err \<Rightarrow> Inl err
      | Inr (s1, ops) \<Rightarrow> run_steps cfg s1 rest)"
| "run_steps cfg s (Tick now # rest) =
     (case space_tick cfg s now of
        Inl err \<Rightarrow> Inl err
      | Inr s1 \<Rightarrow> run_steps cfg s1 rest)"

text \<open>A release of the ramp key.\<close>

fun is_release :: "scfg \<Rightarrow> step \<Rightarrow> bool" where
  "is_release cfg (Ev (type, code, val) now) = (type = EV_KEY \<and> code = space_key cfg \<and> val = 0)"
| "is_release cfg (Tick now) = False"

text \<open>All segment state is as \<open>_space_reset\<close> leaves it.\<close>

definition segment_cleared :: "strafer \<Rightarrow> bool" where
  "segment_cleared s =
     (seg_idx s = - 1 \<and> seg_start_t s = 0 \<and> seg_end_t s = 0 \<and> seg_start_speed s = 0
      \<and> seg_target s = NoTarget \<and> seg_ticks_total s = 0 \<and> seg_tick_idx s = 0
      \<and> next_tick_time s = 0)"

subsection \<open>Invariants of the ramp\<close>

text \<open>
  The segment index never falls below \<open>-1\<close> and a segment under way has at least one
  tick: the states in which neither the indexing nor the division of the ramp can raise.
\<close>

definition ramp_wf :: "strafer \<Rightarrow> bool" where
  "ramp_wf s = (- 1 \<le> seg_idx s \<and> (case seg_target s of Target v \<Rightarrow> 1 \<le> seg_ticks_total s | _ \<Rightarrow> True))"

text \<open>The trigger state and the saved speed are the same in both states.\<close>

definition ramp_kept :: "strafer \<Rightarrow> strafer \<Rightarrow> bool" where
  "ramp_kept s s' = (space_down s' = space_down s \<and> space_original_speed s' = space_original_speed s)"

text \<open>The target of a segment under way is the value of a checkpoint.\<close>

definition target_from :: "scfg \<Rightarrow> strafer \<Rightarrow> bool" where
  "target_from cfg s = (case seg_target s of Target v \<Rightarrow> v \<in> snd ` set (space_sched cfg) | _ \<Rightarrow> True)"

text \<open>The part of the ramp state that events other than those of the ramp key leave alone.\<close>

definition ramp_same :: "strafer \<Rightarrow> strafer \<Rightarrow> bool" where
  "ramp_same s s' =
     (seg_idx s' = seg_idx s \<and> seg_target s' = seg_target s
      \<and> seg_ticks_total s' = seg_ticks_total s \<and> space_down s' = space_down s
      \<and> space_original_speed s' = space_original_speed s)"

text \<open>The speed and the target of a segment under way are at least \<open>L\<close>.\<close>

definition ramp_floor :: "real \<Rightarrow> strafer \<Rightarrow> bool" where
  "ramp_floor L s = (L \<le> current_speed s \<and> (case seg_target s of Target v \<Rightarrow> L \<le> v | _ \<Rightarrow> True))"

text \<open>
  A configuration that never raises the speed, whose checkpoints and upper bound are all
  at least \<open>L\<close>.
\<close>

definition sched_floor :: "scfg \<Rightarrow> real \<Rightarrow> bool" where
  "sched_floor cfg L = (\<not> space_allow_up cfg \<and> L \<le> MAX_SPEED_PX_PER_SEC cfg
                        \<and> list_all (\<lambda>p. L \<le> snd p) (space_sched cfg))"

section \<open>Concrete configurations\<close>

text \<open>One clock value for all the readings of a pass.\<close>

definition at_time :: "real \<Rightarrow> clock" where
  "at_time t = \<lparr>at_on_key = t, at_timeout = t, at_debounce = t, at_switch = t\<rparr>"

text \<open>The defaults of \<open>StraferMacro.__init__\<close> (key codes as in the Linux input interface).\<close>

definition default_cfg :: scfg where
  "default_cfg =
     \<lparr> key_left = 30, key_right = 32, key_pause = Some 1, key_speed = Some 29,
       key_slow = Some 42, key_wheel_t = Some 67, space_key = 57, stop_btn = 276,
       SCROLL_SPEED_STEP = 100, MIN_SPEED_PX_PER_SEC = 100, MAX_SPEED_PX_PER_SEC = 20000,
       SPEEDUP_MULTIPLIER = 2, SLOWDOWN_MULTIPLIER = 1 / 2,
       ACCEL_TIME_S = 1 / 1000, DECEL_TIME_S = 1 / 1000, EASING = ''exp_in_out'',
       MIN_FRAME_TIME = 15 / 10000, DEADZONE_VEL_PX_S = 1 / 2, START_MOVE_DELAY_S = 1 / 100,
       SPACE_MIRROR_TO_GAME = True,
       SPACE_TIMED_SPEED_SCHEDULE = [(0, 2500), (2, 2200), (4, 1800), (6, 1500), (8, 1150)],
       space_tick_s = 1, space_allow_up = False,
       SPACE_RESTART_ON_PRESS = True, SPACE_STOP_ON_RELEASE = True \<rparr>"

text \<open>The defaults with the three-checkpoint schedule and a tick of one second.\<close>

definition ramp_cfg :: scfg where
  "ramp_cfg = default_cfg\<lparr>SPACE_TIMED_SPEED_SCHEDULE := [(0, 2500), (2, 2200), (4, 1800)]\<rparr>"

text \<open>
  With the schedule of \<open>ramp_cfg\<close> and the ramp key pressed at time 0: the speed is 2500
  and the ramp either waits for the checkpoint at 2 s or has begun the segment that starts
  there without a tick of it done.
\<close>

definition holds_2500 :: "strafer \<Rightarrow> bool" where
  "holds_2500 s =
     (space_down s \<and> current_speed s = 2500
      \<and> ((space_press_t s = 0 \<and> seg_idx s = 0 \<and> seg_target s = Wait 2)
         \<or> (seg_target s = Target 2200 \<and> seg_tick_idx s = 0 \<and> seg_ticks_total s = 2
            \<and> next_tick_time s = 3)))"

text \<open>
  A two-key axis in mode recent with a swap delay of 50 ms, after the first key went down at
  time 1 (handled by the loop) and \<open>on_key\<close> has recorded the second key down at time 2.
\<close>

definition debounce_state :: axis where
  "debounce_state =
     snd (on_key (run_axis (new_axis [30, 32] Recent [] (Some 50) None) [(30, True, at_time 1)])
            32 True 2)"

text \<open>
  A two-key axis in mode recent with neither a swap delay nor a neutral timeout, after the
  first key went down at time 1 (handled by the loop) and \<open>on_key\<close> has recorded the
  second key down at time 2: both keys are held.
\<close>

definition two_held_state :: axis where
  "two_held_state =
     snd (on_key (run_axis (new_axis [30, 32] Recent [] None None) [(30, True, at_time 1)])
            32 True 2)"

text \<open>The same two edges on an axis in mode first with a swap delay of 50 ms.\<close>

definition two_held_first_state :: axis where
  "two_held_first_state =
     snd (on_key (run_axis (new_axis [30, 32] First [] (Some 50) None) [(30, True, at_time 1)])
            32 True 2)"

text \<open>
  Six key edges on a three-key axis: three presses, the release of the first key, its
  second press 10 ms later and the release of the second key after another 10 ms.
\<close>

definition three_key_edges :: "(int \<times> bool \<times> clock) list" where
  "three_key_edges =
     [(30, True, at_time 1), (31, True, at_time 2), (32, True, at_time 3),
      (30, False, at_time 4), (30, True, at_time (401 / 100)), (31, False, at_time (402 / 100))]"

text \<open>A cleaner with one two-key axis, a virtual device and one keyboard.\<close>

definition one_axis_cleaner :: cleaner where
  "one_axis_cleaner = \<lparr> axes = [new_axis [30, 32] Recent [] None None], ui = True, devs = 1 \<rparr>"


section \<open>Properties of the axis engine\<close>

lemmas axis_eval =
  run_axis.simps axis_step_def on_key_def pick_def emit_changes_def emit_change_def
  new_axis_def at_time_def dict_keys_def pressed_def pressed_count_def mirror_def only_key_def
  all_off_def out_copy_def out_get_def recent_choice_def py_min_def py_max_def debounce_ok_def
  note_switch_def timeout_neutral_active_def held_out_def Let_def

lemma dict_keys_distinct [simp]: "distinct (dict_keys ks)"
  by (simp add: dict_keys_def)

lemma dict_keys_set [simp]: "set (dict_keys ks) = set ks"
  by (simp add: dict_keys_def)

subsection \<open>Writing the desired map into \<open>out\<close>\<close>

lemma emit_change_fst:
  "fst (emit_change u (k, w) (a, ops)) = a\<lparr>out := (out a)(k := w)\<rparr>"
proof (cases "out a k = w")
  case True
  have "(out a)(k := out a k) = out a" by (rule fun_upd_triv)
  then have "a\<lparr>out := (out a)(k := out a k)\<rparr> = a" by simp
  then show ?thesis using True by (simp add: emit_change_def)
next
  case False
  then show ?thesis by (simp add: emit_change_def)
qed

lemma emit_changes_fold:
  "fst (fold (emit_change u) (map (\<lambda>k. (k, f k)) ds) st)
   = (fst st)\<lparr>out := (\<lambda>k. if k \<in> set ds then f k else out (fst st) k)\<rparr>"
proof (induction ds arbitrary: st)
  case Nil
  then show ?case by simp
next
  case (Cons d ds)
  obtain a ops where st: "st = (a, ops)" by (cases st)
  let ?st' = "emit_change u (d, f d) st"
  have a': "fst ?st' = a\<lparr>out := (out a)(d := f d)\<rparr>"
    unfolding st by (rule emit_change_fst)
  have e: "(\<lambda>k. if k \<in> set ds then f k else out (fst ?st') k)
         = (\<lambda>k. if k \<in> set (d # ds) then f k else out a k)"
    unfolding a' by (rule ext) simp
  have "fst (fold (emit_change u) (map (\<lambda>k. (k, f k)) (d # ds)) st)
      = fst (fold (emit_change u) (map (\<lambda>k. (k, f k)) ds) ?st')" by simp
  also have "\<dots> = (fst ?st')\<lparr>out := (\<lambda>k. if k \<in> set ds then f k else out (fst ?st') k)\<rparr>"
    by (rule Cons.IH)
  also have "\<dots> = (fst ?st')\<lparr>out := (\<lambda>k. if k \<in> set (d # ds) then f k else out a k)\<rparr>"
    by (simp only: e)
  also have "\<dots> = a\<lparr>out := (\<lambda>k. if k \<in> set (d # ds) then f k else out a k)\<rparr>"
    unfolding a' by simp
  finally show ?case unfolding st by simp
qed

lemma emit_changes_out:
  "fst (emit_changes u ax (map (\<lambda>k. (k, f k)) ds))
   = ax\<lparr>out := (\<lambda>k. if k \<in> set ds then f k else out ax k)\<rparr>"
  unfolding emit_changes_def using emit_changes_fold [of u f ds "(ax, [])"] by simp

lemma held_out_emit:
  "held_out (fst (emit_changes u ax (map (\<lambda>k. (k, f k)) (dict_keys (keys ax)))))
   = filter f (dict_keys (keys ax))"
  unfolding emit_changes_out held_out_def by (rule filter_cong) simp_all

subsection \<open>The shape of what \<open>pick\<close> returns\<close>

lemma filter_only_le1:
  assumes "distinct ds"
  shows "length (filter (\<lambda>k. Some k = c) ds) \<le> Suc 0"
proof (cases c)
  case None
  then show ?thesis by simp
next
  case (Some x)
  have "length (filter (\<lambda>k. Some k = c) ds) = card ({k. Some k = c} \<inter> set ds)"
    using assms by (rule distinct_length_filter)
  also have "\<dots> \<le> card {x}"
    by (rule card_mono) (use Some in auto)
  finally show ?thesis by simp
qed

lemma filter_mirror: "filter (\<lambda>k. k \<in> set (pressed ax)) (dict_keys (keys ax)) = pressed ax"
  unfolding pressed_def by (rule filter_cong) auto

lemma pick_cases:
  assumes "mode ax = Combine \<or> length (pressed ax) \<le> 1 \<Longrightarrow> P (mirror ax)"
    and "\<And>ch. mode ax \<noteq> Combine \<Longrightarrow> P (only_key ax ch)"
    and "mode ax \<noteq> Combine \<Longrightarrow> P (all_off ax)"
    and "mode ax \<noteq> Combine \<Longrightarrow> P (out_copy ax)"
  shows "P (fst (pick ax a b c))"
proof (cases "mode ax")
  case Recent
  then show ?thesis using assms by (simp add: pick_def Let_def)
next
  case First
  then show ?thesis using assms by (simp add: pick_def Let_def)
next
  case Neutral
  then show ?thesis using assms by (simp add: pick_def Let_def)
next
  case Priority
  then show ?thesis using assms by (simp add: pick_def Let_def split: option.split)
next
  case Combine
  then show ?thesis using assms by (simp add: pick_def Let_def)
next
  case Invert
  then show ?thesis using assms by (simp add: pick_def Let_def)
next
  case Sticky
  then show ?thesis using assms by (simp add: pick_def Let_def)
next
  case Toggle
  then show ?thesis using assms by (simp add: pick_def Let_def)
qed

lemma pick_shape:
  "\<exists>f. fst (pick ax a b c) = map (\<lambda>k. (k, f k)) (dict_keys (keys ax))"
proof (rule pick_cases)
  show "\<exists>f. mirror ax = map (\<lambda>k. (k, f k)) (dict_keys (keys ax))"
    unfolding mirror_def by (rule exI [of _ "\<lambda>k. k \<in> set (pressed ax)"]) (rule refl)
  show "\<exists>f. only_key ax ch = map (\<lambda>k. (k, f k)) (dict_keys (keys ax))" for ch
    unfolding only_key_def by (rule exI [of _ "\<lambda>k. Some k = ch"]) (rule refl)
  show "\<exists>f. all_off ax = map (\<lambda>k. (k, f k)) (dict_keys (keys ax))"
    unfolding all_off_def by (rule exI [of _ "\<lambda>k. False"]) (rule refl)
  show "\<exists>f. out_copy ax = map (\<lambda>k. (k, f k)) (dict_keys (keys ax))"
    unfolding out_copy_def by (rule exI [of _ "out ax"]) (rule refl)
qed

lemma pick_snd: "snd (pick ax a b c) = ax \<or> snd (pick ax a b c) = note_switch ax c"
proof (cases "mode ax")
  case Priority
  then show ?thesis by (simp add: pick_def Let_def split: option.split)
qed (simp_all add: pick_def Let_def)

lemma pick_snd_fields [simp]:
  "keys (snd (pick ax a b c)) = keys ax"
  "mode (snd (pick ax a b c)) = mode ax"
  "out (snd (pick ax a b c)) = out ax"
  "down (snd (pick ax a b c)) = down ax"
  using pick_snd [of ax a b c] by (auto simp: note_switch_def)

lemma on_key_fields [simp]:
  "keys (snd (on_key ax code d now)) = keys ax"
  "mode (snd (on_key ax code d now)) = mode ax"
  "out (snd (on_key ax code d now)) = out ax"
  by (simp_all add: on_key_def Let_def)

lemma pick_at_most_one:
  assumes "mode ax \<noteq> Combine" "length (held_out ax) \<le> 1"
  shows "\<exists>f. fst (pick ax a b c) = map (\<lambda>k. (k, f k)) (dict_keys (keys ax))
            \<and> length (filter f (dict_keys (keys ax))) \<le> 1"
proof (rule pick_cases)
  let ?ds = "dict_keys (keys ax)"
  show "\<exists>f. only_key ax ch = map (\<lambda>k. (k, f k)) ?ds \<and> length (filter f ?ds) \<le> 1" for ch
    unfolding only_key_def using filter_only_le1 [of ?ds ch]
    by (intro exI [of _ "\<lambda>k. Some k = ch"]) simp
  show "\<exists>f. all_off ax = map (\<lambda>k. (k, f k)) ?ds \<and> length (filter f ?ds) \<le> 1"
    unfolding all_off_def by (rule exI [of _ "\<lambda>k. False"]) simp
  show "\<exists>f. out_copy ax = map (\<lambda>k. (k, f k)) ?ds \<and> length (filter f ?ds) \<le> 1"
    unfolding out_copy_def using assms(2) by (intro exI [of _ "out ax"]) (simp add: held_out_def)
  show "\<exists>f. mirror ax = map (\<lambda>k. (k, f k)) ?ds \<and> length (filter f ?ds) \<le> 1"
    if "mode ax = Combine \<or> length (pressed ax) \<le> 1"
    unfolding mirror_def using that assms(1)
    by (intro exI [of _ "\<lambda>k. k \<in> set (pressed ax)"]) (simp add: filter_mirror)
qed

subsection \<open>One pass of the loop body\<close>

lemma axis_step_fst:
  "fst (axis_step u ax code d c) =
     (let ax1 = snd (on_key ax code d (at_on_key c));
          p = pick ax1 (at_timeout c) (at_debounce c) (at_switch c)
      in fst (emit_changes u (snd p) (fst p)))"
  by (simp add: axis_step_def Let_def split_beta)

lemma axis_step_fields [simp]:
  "keys (fst (axis_step u ax code d c)) = keys ax"
  "mode (fst (axis_step u ax code d c)) = mode ax"
proof -
  let ?ax1 = "snd (on_key ax code d (at_on_key c))"
  let ?p = "pick ?ax1 (at_timeout c) (at_debounce c) (at_switch c)"
  obtain f where f: "fst ?p = map (\<lambda>k. (k, f k)) (dict_keys (keys ?ax1))"
    using pick_shape [of ?ax1] by blast
  show "keys (fst (axis_step u ax code d c)) = keys ax"
    unfolding axis_step_fst Let_def f emit_changes_out by simp
  show "mode (fst (axis_step u ax code d c)) = mode ax"
    unfolding axis_step_fst Let_def f emit_changes_out by simp
qed

lemma axis_step_at_most_one:
  assumes "mode ax \<noteq> Combine" "length (held_out ax) \<le> 1"
  shows "length (held_out (fst (axis_step u ax code d c))) \<le> 1"
proof -
  let ?ax1 = "snd (on_key ax code d (at_on_key c))"
  let ?p = "pick ?ax1 (at_timeout c) (at_debounce c) (at_switch c)"
  have h1: "length (held_out ?ax1) \<le> 1" using assms(2) by (simp add: held_out_def)
  have m1: "mode ?ax1 \<noteq> Combine" using assms(1) by simp
  obtain f where f: "fst ?p = map (\<lambda>k. (k, f k)) (dict_keys (keys ?ax1))"
    and l: "length (filter f (dict_keys (keys ?ax1))) \<le> 1"
    using pick_at_most_one [OF m1 h1] by blast
  have k: "keys (snd ?p) = keys ?ax1" by simp
  have "held_out (fst (emit_changes u (snd ?p) (fst ?p))) = filter f (dict_keys (keys ?ax1))"
    unfolding f using held_out_emit [of u "snd ?p" f] unfolding k .
  then show ?thesis using l by (simp add: axis_step_fst Let_def)
qed

lemma axis_step_combine:
  assumes "mode ax = Combine" "k \<in> set (keys ax)"
  shows "out (fst (axis_step u ax code d c)) k = down (fst (axis_step u ax code d c)) k"
proof -
  let ?ax1 = "snd (on_key ax code d (at_on_key c))"
  let ?p = "pick ?ax1 (at_timeout c) (at_debounce c) (at_switch c)"
  have m: "mode ?ax1 = Combine" using assms(1) by simp
  have p: "?p = (map (\<lambda>k. (k, k \<in> set (pressed ?ax1))) (dict_keys (keys ?ax1)), ?ax1)"
    using m by (simp add: pick_def mirror_def)
  have "fst (axis_step u ax code d c)
        = ?ax1\<lparr>out := (\<lambda>k. if k \<in> set (dict_keys (keys ?ax1)) then k \<in> set (pressed ?ax1)
                              else out ?ax1 k)\<rparr>"
    unfolding axis_step_fst Let_def p fst_conv snd_conv by (rule emit_changes_out)
  then show ?thesis using assms(2) by (simp add: pressed_def)
qed

subsection \<open>Runs\<close>

lemma run_axis_fields [simp]:
  "keys (run_axis ax es) = keys ax" "mode (run_axis ax es) = mode ax"
  by (induction ax es rule: run_axis.induct) simp_all

lemma run_axis_at_most_one:
  "mode ax \<noteq> Combine \<Longrightarrow> length (held_out ax) \<le> 1 \<Longrightarrow> length (held_out (run_axis ax es)) \<le> 1"
proof (induction ax es rule: run_axis.induct)
  case (1 ax)
  then show ?case by simp
next
  case (2 ax code is_down c es)
  then show ?case using axis_step_at_most_one [of ax True code is_down c] by simp
qed

lemma run_axis_combine:
  "mode ax = Combine \<Longrightarrow> k \<in> set (keys ax) \<Longrightarrow> out ax k = down ax k \<Longrightarrow>
   out (run_axis ax es) k = down (run_axis ax es) k"
proof (induction ax es rule: run_axis.induct)
  case (1 ax)
  then show ?case by simp
next
  case (2 ax code is_down c es)
  then show ?case using axis_step_combine [of ax k True code is_down c] by simp
qed

text \<open>
  Claim C1. In every mode other than combine and toggle, after any sequence of key edges,
  each handled as the loop does (\<open>on_key\<close>, then \<open>pick\<close>, then \<open>out\<close> updated from the
  result), at most one key of the group has its \<open>out\<close> entry true. The state meant is the
  one between two events, after the update of lines 235 to 240 has run to its end.
\<close>

theorem at_most_one_out:
  assumes "m \<noteq> Combine" "m \<noteq> Toggle"
  shows "length (held_out (run_axis (new_axis ks m prio sd tn) es)) \<le> 1"
  using assms(1) by (intro run_axis_at_most_one) (simp_all add: new_axis_def held_out_def)

theorem at_most_one_out_witness:
  "Recent \<noteq> Combine \<and> Recent \<noteq> Toggle \<and>
   length (held_out (run_axis (new_axis [30, 32] Recent [] None None)
                       [(30, True, at_time 1), (32, True, at_time 2)])) \<le> 1"
  using at_most_one_out [of Recent "[30, 32]" "[]" None None
                            "[(30, True, at_time 1), (32, True, at_time 2)]"]
  by simp

text \<open>
  Claim C8. In combine mode, after every sequence of key edges handled as the loop does,
  the \<open>out\<close> entry of every key of the group equals its \<open>down\<close> entry.
\<close>

theorem combine_mirrors_down:
  assumes "k \<in> set ks"
  shows "out (run_axis (new_axis ks Combine prio sd tn) es) k
       = down (run_axis (new_axis ks Combine prio sd tn) es) k"
  using assms by (intro run_axis_combine) (simp_all add: new_axis_def)

theorem combine_mirrors_down_witness:
  "(32::int) \<in> set [30, 32] \<and>
   out (run_axis (new_axis [30, 32] Combine [] None None)
          [(30, True, at_time 1), (32, True, at_time 2)]) 32
   = down (run_axis (new_axis [30, 32] Combine [] None None)
            [(30, True, at_time 1), (32, True, at_time 2)]) 32"
  using combine_mirrors_down [of 32 "[30, 32]" "[]" None None
                                 "[(30, True, at_time 1), (32, True, at_time 2)]"]
  by simp


subsection \<open>Sticky mode\<close>

text \<open>
  Claim C2. In sticky mode a key that has won is to remain the output until all keys of the
  group are released. The code keeps the winner only while at least two keys are held: the
  mirror of line 394 returns before the sticky branch is reached. On a two-key axis, with
  key 30 pressed, then key 32 pressed (30 stays the output), the release of key 30 makes
  key 32 the output although key 32 is still held.
\<close>

theorem sticky_winner_lost_on_its_release:
  "held_out (run_axis (new_axis [30, 32] Sticky [] None None)
      [(30, True, at_time 1), (32, True, at_time 2)]) = [30]
   \<and> held_out (run_axis (new_axis [30, 32] Sticky [] None None)
      [(30, True, at_time 1), (32, True, at_time 2), (30, False, at_time 3)]) = [32]
   \<and> pressed (run_axis (new_axis [30, 32] Sticky [] None None)
      [(30, True, at_time 1), (32, True, at_time 2), (30, False, at_time 3)]) = [32]"
  by (simp add: axis_eval)

subsection \<open>Calling \<open>pick\<close> twice\<close>

lemma last_switch_time_irrelevant [simp]:
  "mirror (ax\<lparr>last_switch_time := x\<rparr>) = mirror ax"
  "only_key (ax\<lparr>last_switch_time := x\<rparr>) ch = only_key ax ch"
  "all_off (ax\<lparr>last_switch_time := x\<rparr>) = all_off ax"
  "out_copy (ax\<lparr>last_switch_time := x\<rparr>) = out_copy ax"
  "pressed (ax\<lparr>last_switch_time := x\<rparr>) = pressed ax"
  "pressed_count (ax\<lparr>last_switch_time := x\<rparr>) = pressed_count ax"
  "recent_choice (ax\<lparr>last_switch_time := x\<rparr>) = recent_choice ax"
  "out_get (ax\<lparr>last_switch_time := x\<rparr>) ch = out_get ax ch"
  by (simp_all add: mirror_def only_key_def all_off_def out_copy_def pressed_def
        pressed_count_def recent_choice_def out_get_def split: option.split)

lemma pick_without_clock:
  assumes "swap_delay ax \<le> 0 \<or> mode ax \<in> {Combine, Toggle, Neutral, First}"
    and "timeout_neutral ax \<le> 0 \<or> mode ax \<in> {Combine, Toggle, Neutral}"
  shows "fst (pick (ax\<lparr>last_switch_time := x\<rparr>) a' b' c') = fst (pick ax a b c)"
proof (cases "mode ax")
  case Priority
  then show ?thesis using assms
    by (simp add: pick_def Let_def debounce_ok_def timeout_neutral_active_def split: option.split)
qed (use assms in \<open>simp_all add: pick_def Let_def debounce_ok_def timeout_neutral_active_def\<close>)

text \<open>
  Claim C6, as stated, fails. With a swap delay of 50 ms, in the state \<open>debounce_state\<close>
  (first key down at time 1 and emitted, second key down at time 2), the first \<open>pick\<close>
  switches to the second key and notes the switch; a second \<open>pick\<close> at the same clock
  reading finds the delay not yet elapsed and returns the copy of \<open>out\<close>, which still
  names the first key.
\<close>

theorem pick_twice_differs_within_swap_delay:
  "fst (pick debounce_state 2 2 2) = [(30, False), (32, True)] \<and>
   fst (pick (snd (pick debounce_state 2 2 2)) 2 2 2) = [(30, True), (32, False)]"
  by (simp add: debounce_state_def axis_eval)

text \<open>
  The neutral timeout makes the result depend on the clock as well, also when \<open>out\<close> has
  been updated in between: with a timeout of 500 ms and a conflict that began at time 2,
  \<open>pick\<close> names the second key at time 2.1 and no key at time 3.
\<close>

lemma pick_twice_differs_across_timeout:
  "fst (pick (run_axis (new_axis [30, 32] Recent [] None (Some 500))
                [(30, True, at_time 1), (32, True, at_time 2)])
          (21 / 10) (21 / 10) (21 / 10)) = [(30, False), (32, True)] \<and>
   fst (pick (snd (pick (run_axis (new_axis [30, 32] Recent [] None (Some 500))
                           [(30, True, at_time 1), (32, True, at_time 2)])
                     (21 / 10) (21 / 10) (21 / 10))) 3 3 3) = [(30, False), (32, False)]"
  by (simp add: axis_eval)

text \<open>
  Claim C6, amended. Two calls of \<open>pick\<close> with no \<open>on_key\<close> in between return
  the same output map, in every state and whatever the clock reads, whenever \<open>pick\<close>
  does not consult the clock: in the modes combine, toggle and neutral always; in mode first
  when no neutral timeout is configured; in the other modes when neither a swap delay nor a
  neutral timeout is configured (both at most 0, the default).
\<close>

theorem pick_idempotent_without_clock:
  assumes "swap_delay ax \<le> 0 \<or> mode ax \<in> {Combine, Toggle, Neutral, First}"
    and "timeout_neutral ax \<le> 0 \<or> mode ax \<in> {Combine, Toggle, Neutral}"
  shows "fst (pick (snd (pick ax a b c)) a' b' c') = fst (pick ax a b c)"
proof -
  from pick_snd [of ax a b c] show ?thesis
  proof
    assume "snd (pick ax a b c) = ax"
    moreover have "fst (pick ax a' b' c') = fst (pick ax a b c)"
      using pick_without_clock [OF assms, of "last_switch_time ax" a' b' c' a b c] by simp
    ultimately show ?thesis by simp
  next
    assume "snd (pick ax a b c) = note_switch ax c"
    then show ?thesis using pick_without_clock [OF assms, of c a' b' c' a b c]
      by (simp add: note_switch_def)
  qed
qed

theorem pick_idempotent_without_clock_witness:
  "(swap_delay two_held_state \<le> 0
      \<or> mode two_held_state \<in> {Combine, Toggle, Neutral, First})
   \<and> (timeout_neutral two_held_state \<le> 0
      \<or> mode two_held_state \<in> {Combine, Toggle, Neutral})
   \<and> mode two_held_state = Recent
   \<and> pressed two_held_state = [30, 32]
   \<and> fst (pick two_held_state 2 2 2) = [(30, False), (32, True)]
   \<and> last_switch_time (snd (pick two_held_state 2 2 2)) = 2
   \<and> fst (pick (snd (pick two_held_state 2 2 2)) 2 2 2) = fst (pick two_held_state 2 2 2)
   \<and> (swap_delay two_held_first_state \<le> 0
      \<or> mode two_held_first_state \<in> {Combine, Toggle, Neutral, First})
   \<and> (timeout_neutral two_held_first_state \<le> 0
      \<or> mode two_held_first_state \<in> {Combine, Toggle, Neutral})
   \<and> swap_delay two_held_first_state = 50 / 1000
   \<and> pressed two_held_first_state = [30, 32]
   \<and> fst (pick two_held_first_state 2 2 2) = [(30, True), (32, False)]
   \<and> fst (pick (snd (pick two_held_first_state 2 2 2)) 3 3 3)
       = fst (pick two_held_first_state 2 2 2)"
proof -
  have h1: "swap_delay two_held_state \<le> 0
      \<or> mode two_held_state \<in> {Combine, Toggle, Neutral, First}"
    by (simp add: two_held_state_def new_axis_def axis_eval)
  have h2: "timeout_neutral two_held_state \<le> 0
      \<or> mode two_held_state \<in> {Combine, Toggle, Neutral}"
    by (simp add: two_held_state_def new_axis_def axis_eval)
  have s: "mode two_held_state = Recent" "pressed two_held_state = [30, 32]"
    "fst (pick two_held_state 2 2 2) = [(30, False), (32, True)]"
    "last_switch_time (snd (pick two_held_state 2 2 2)) = 2"
    by (simp_all add: two_held_state_def axis_eval)
  have g1: "swap_delay two_held_first_state \<le> 0
      \<or> mode two_held_first_state \<in> {Combine, Toggle, Neutral, First}"
    by (simp add: two_held_first_state_def new_axis_def axis_eval)
  have g2: "timeout_neutral two_held_first_state \<le> 0
      \<or> mode two_held_first_state \<in> {Combine, Toggle, Neutral}"
    by (simp add: two_held_first_state_def new_axis_def axis_eval)
  have t: "swap_delay two_held_first_state = 50 / 1000" "pressed two_held_first_state = [30, 32]"
    "fst (pick two_held_first_state 2 2 2) = [(30, True), (32, False)]"
    by (simp_all add: two_held_first_state_def axis_eval)
  from pick_idempotent_without_clock [OF h1 h2, of 2 2 2 2 2 2]
       pick_idempotent_without_clock [OF g1 g2, of 2 2 2 3 3 3] h1 h2 s g1 g2 t
  show ?thesis by blast
qed

subsection \<open>Invert and first\<close>

lemma mode_irrelevant [simp]:
  "mirror (ax\<lparr>mode := m\<rparr>) = mirror ax"
  "only_key (ax\<lparr>mode := m\<rparr>) ch = only_key ax ch"
  "all_off (ax\<lparr>mode := m\<rparr>) = all_off ax"
  "pressed (ax\<lparr>mode := m\<rparr>) = pressed ax"
  "pressed_count (ax\<lparr>mode := m\<rparr>) = pressed_count ax"
  by (simp_all add: mirror_def only_key_def all_off_def pressed_def pressed_count_def)

lemma pressed_count_pressed: "pressed_count ax = length (pressed ax)"
  by (simp add: pressed_count_def pressed_def)

lemma on_key_invert_first:
  assumes "mode a = First"
  shows "snd (on_key (a\<lparr>mode := Invert, last_switch_time := l\<rparr>) code d now)
       = (snd (on_key a code d now))\<lparr>mode := Invert, last_switch_time := l\<rparr>"
  using assms by (simp add: on_key_def Let_def pressed_count_def)

lemma pick_invert_first:
  assumes "mode a = First" "swap_delay a \<le> 0"
  shows "fst (pick (a\<lparr>mode := Invert, last_switch_time := l\<rparr>) x y z) = fst (pick a x y' z')"
    and "\<exists>l'. snd (pick (a\<lparr>mode := Invert, last_switch_time := l\<rparr>) x y z)
             = a\<lparr>mode := Invert, last_switch_time := l'\<rparr>"
    and "snd (pick a x y' z') = a"
  using assms
  by (auto simp add: pick_def Let_def debounce_ok_def timeout_neutral_active_def note_switch_def
        pressed_count_pressed)

lemma axis_step_invert_first:
  assumes "mode a = First" "swap_delay a \<le> 0"
  shows "\<exists>l'. fst (axis_step u (a\<lparr>mode := Invert, last_switch_time := l\<rparr>) code d c)
           = (fst (axis_step u a code d c))\<lparr>mode := Invert, last_switch_time := l'\<rparr>"
proof -
  let ?a1 = "snd (on_key a code d (at_on_key c))"
  let ?b1 = "?a1\<lparr>mode := Invert, last_switch_time := l\<rparr>"
  have m1: "mode ?a1 = First" using assms(1) by simp
  have s1: "swap_delay ?a1 \<le> 0" using assms by (simp add: on_key_def Let_def)
  have ok: "snd (on_key (a\<lparr>mode := Invert, last_switch_time := l\<rparr>) code d (at_on_key c)) = ?b1"
    by (rule on_key_invert_first [OF assms(1)])
  let ?pa = "pick ?a1 (at_timeout c) (at_debounce c) (at_switch c)"
  let ?pb = "pick ?b1 (at_timeout c) (at_debounce c) (at_switch c)"
  have e: "fst ?pb = fst ?pa" by (rule pick_invert_first(1) [OF m1 s1])
  obtain l' where sb: "snd ?pb = ?a1\<lparr>mode := Invert, last_switch_time := l'\<rparr>"
    using pick_invert_first(2) [OF m1 s1] by blast
  have sa: "snd ?pa = ?a1" by (rule pick_invert_first(3) [OF m1 s1])
  obtain f where f: "fst ?pa = map (\<lambda>k. (k, f k)) (dict_keys (keys ?a1))"
    using pick_shape [of ?a1] by blast
  have "fst (axis_step u (a\<lparr>mode := Invert, last_switch_time := l\<rparr>) code d c)
        = fst (emit_changes u (snd ?pb) (fst ?pb))"
    unfolding axis_step_fst Let_def ok ..
  also have "\<dots> = (fst (emit_changes u ?a1 (fst ?pa)))\<lparr>mode := Invert, last_switch_time := l'\<rparr>"
    unfolding e sb f emit_changes_out by simp
  also have "fst (emit_changes u ?a1 (fst ?pa)) = fst (axis_step u a code d c)"
    unfolding axis_step_fst Let_def sa ..
  finally show ?thesis by blast
qed

lemma axis_step_swap_delay [simp]:
  "swap_delay (fst (axis_step u ax code d c)) = swap_delay ax"
proof -
  let ?ax1 = "snd (on_key ax code d (at_on_key c))"
  let ?p = "pick ?ax1 (at_timeout c) (at_debounce c) (at_switch c)"
  obtain f where f: "fst ?p = map (\<lambda>k. (k, f k)) (dict_keys (keys ?ax1))"
    using pick_shape [of ?ax1] by blast
  have "swap_delay (snd ?p) = swap_delay ?ax1"
    using pick_snd [of ?ax1 "at_timeout c" "at_debounce c" "at_switch c"]
    by (auto simp: note_switch_def)
  moreover have "swap_delay ?ax1 = swap_delay ax" by (simp add: on_key_def Let_def)
  ultimately show ?thesis unfolding axis_step_fst Let_def f emit_changes_out by simp
qed

lemma run_axis_invert_first:
  "mode a = First \<Longrightarrow> swap_delay a \<le> 0 \<Longrightarrow>
   \<exists>l'. run_axis (a\<lparr>mode := Invert, last_switch_time := l\<rparr>) es
       = (run_axis a es)\<lparr>mode := Invert, last_switch_time := l'\<rparr>"
proof (induction a es arbitrary: l rule: run_axis.induct)
  case (1 ax)
  then show ?case by auto
next
  case (2 ax code is_down c es)
  obtain l1 where l1: "fst (axis_step True (ax\<lparr>mode := Invert, last_switch_time := l\<rparr>) code is_down c)
           = (fst (axis_step True ax code is_down c))\<lparr>mode := Invert, last_switch_time := l1\<rparr>"
    using axis_step_invert_first [OF "2.prems"] by blast
  have "mode (fst (axis_step True ax code is_down c)) = First" using "2.prems" by simp
  moreover have "swap_delay (fst (axis_step True ax code is_down c)) \<le> 0" using "2.prems" by simp
  ultimately show ?case using "2.IH" [of l1] l1 by simp
qed

text \<open>
  Claim C7, as stated, fails: mode invert honours the swap delay, mode first does not.
  On a three-key axis with a swap delay of 50 ms and the edges \<open>three_key_edges\<close>, after
  the release of key 31, which had become the output 20 ms before, mode invert still outputs
  key 31 (the copy of \<open>out\<close>), while mode first outputs key 32, the earliest-pressed key
  still held.
\<close>

theorem invert_differs_from_first_within_swap_delay:
  "held_out (run_axis (new_axis [30, 31, 32] Invert [] (Some 50) None) three_key_edges) = [31] \<and>
   held_out (run_axis (new_axis [30, 31, 32] First [] (Some 50) None) three_key_edges) = [32]"
  by (simp add: three_key_edges_def axis_eval)

text \<open>
  Claim C7, amended. When no swap delay is configured (at most 0, the default), then for
  every axis and every sequence of key edges, handled as the loop does, mode invert leaves
  the same output as mode first.
\<close>

theorem invert_selects_as_first_without_delay:
  assumes "swap_delay ax \<le> 0"
  shows "out (run_axis (ax\<lparr>mode := Invert\<rparr>) es) = out (run_axis (ax\<lparr>mode := First\<rparr>) es)"
proof -
  let ?a = "ax\<lparr>mode := First\<rparr>"
  have "ax\<lparr>mode := Invert\<rparr> = ?a\<lparr>mode := Invert, last_switch_time := last_switch_time ax\<rparr>"
    by simp
  moreover obtain l' where "run_axis (?a\<lparr>mode := Invert, last_switch_time := last_switch_time ax\<rparr>) es
       = (run_axis ?a es)\<lparr>mode := Invert, last_switch_time := l'\<rparr>"
    using run_axis_invert_first [of ?a "last_switch_time ax" es] assms by auto
  ultimately show ?thesis by simp
qed

theorem invert_selects_as_first_without_delay_witness:
  "swap_delay (new_axis [30, 31, 32] Recent [] None None) \<le> 0
   \<and> out (run_axis ((new_axis [30, 31, 32] Recent [] None None)\<lparr>mode := Invert\<rparr>) three_key_edges)
     = out (run_axis ((new_axis [30, 31, 32] Recent [] None None)\<lparr>mode := First\<rparr>) three_key_edges)"
  using invert_selects_as_first_without_delay
          [of "new_axis [30, 31, 32] Recent [] None None" three_key_edges]
  by (simp add: new_axis_def)

section \<open>Properties of the event loop and of shutdown\<close>

lemma bykey_nonempty:
  "bykey cl code \<noteq> [] \<longleftrightarrow> (\<exists>ax\<in>set (axes cl). code \<in> set (keys ax))"
proof -
  have "bykey cl code \<noteq> [] \<longleftrightarrow> (\<exists>i<length (axes cl). code \<in> set (keys (axes cl ! i)))"
    by (auto simp: bykey_def count_list_0_iff)
  also have "\<dots> \<longleftrightarrow> (\<exists>ax\<in>set (axes cl). code \<in> set (keys ax))"
  proof
    assume "\<exists>i<length (axes cl). code \<in> set (keys (axes cl ! i))"
    then obtain i where "i < length (axes cl)" "code \<in> set (keys (axes cl ! i))" by blast
    then show "\<exists>ax\<in>set (axes cl). code \<in> set (keys ax)"
      using nth_mem by blast
  next
    assume "\<exists>ax\<in>set (axes cl). code \<in> set (keys ax)"
    then obtain ax where ax: "ax \<in> set (axes cl)" "code \<in> set (keys ax)" by blast
    from ax(1) obtain i where "i < length (axes cl)" "axes cl ! i = ax"
      unfolding in_set_conv_nth by blast
    then show "\<exists>i<length (axes cl). code \<in> set (keys (axes cl ! i))"
      using ax(2) by blast
  qed
  finally show ?thesis .
qed

text \<open>
  Claim C10. A key event with value 2 (auto-repeat) on a key of an axis group leaves the
  whole state of the cleaner unchanged and emits nothing. A key event on a key of no axis
  group is written to the virtual device with its code and value unchanged, repeats
  included, followed by a sync.
\<close>

theorem repeats_ignored_others_forwarded:
  "((\<exists>ax\<in>set (axes cl). code \<in> set (keys ax)) \<longrightarrow>
      loop_event cl (EV_KEY, code, 2) clk = (cl, []))
   \<and> ((\<forall>ax\<in>set (axes cl). code' \<notin> set (keys ax)) \<and> ui cl \<longrightarrow>
      loop_event cl (EV_KEY, code', val) clk = (cl, [Write EV_KEY code' val, Syn]))"
proof (intro conjI impI)
  assume "\<exists>ax\<in>set (axes cl). code \<in> set (keys ax)"
  then have "bykey cl code \<noteq> []" by (simp add: bykey_nonempty)
  then show "loop_event cl (EV_KEY, code, 2) clk = (cl, [])"
    by (simp add: loop_event_def)
next
  assume a: "(\<forall>ax\<in>set (axes cl). code' \<notin> set (keys ax)) \<and> ui cl"
  then have "bykey cl code' = []" using bykey_nonempty [of cl code'] by blast
  then show "loop_event cl (EV_KEY, code', val) clk = (cl, [Write EV_KEY code' val, Syn])"
    using a by (simp add: loop_event_def)
qed

theorem repeats_ignored_others_forwarded_witness:
  "(\<exists>ax\<in>set (axes one_axis_cleaner). 30 \<in> set (keys ax))
   \<and> loop_event one_axis_cleaner (EV_KEY, 30, 2) (\<lambda>j. at_time 1) = (one_axis_cleaner, [])
   \<and> list_all (\<lambda>ax. 16 \<notin> set (keys ax)) (axes one_axis_cleaner) \<and> ui one_axis_cleaner
   \<and> loop_event one_axis_cleaner (EV_KEY, 16, 2) (\<lambda>j. at_time 1)
       = (one_axis_cleaner, [Write EV_KEY 16 2, Syn])"
  using repeats_ignored_others_forwarded [of one_axis_cleaner 30 "\<lambda>j. at_time 1" 16 2]
  by (simp add: one_axis_cleaner_def new_axis_def)

text \<open>
  The cleaner releases on shutdown: for every axis key whose \<open>out\<close> entry is true,
  \<open>_cleanup\<close> writes a key-up before it closes the virtual device.
\<close>

lemma cleanup_releases_held_axis_keys:
  assumes "ui cl" "ax \<in> set (axes cl)" "k \<in> set (keys ax)" "out ax k"
  shows "\<exists>pre post. cleanup cl = pre @ Write EV_KEY k 0 # post \<and> Close \<notin> set pre \<and> Close \<in> set post"
proof -
  let ?ups = "concat (map (\<lambda>ax. map (\<lambda>k. Write EV_KEY k 0) (held_out ax)) (axes cl))"
  have "Write EV_KEY k 0 \<in> set ?ups"
    using assms by (auto simp: held_out_def)
  then obtain pre post where sp: "?ups = pre @ Write EV_KEY k 0 # post"
    by (meson split_list)
  have "Close \<notin> set ?ups" by auto
  then have "Close \<notin> set pre" unfolding sp by simp
  moreover have "cleanup cl = pre @ Write EV_KEY k 0 #
      (post @ [Syn] @ concat (map (\<lambda>i. [DevUngrab i, DevClose i]) [0..<devs cl]) @ [Close])"
    using assms(1) sp by (simp add: cleanup_def)
  ultimately show ?thesis by (intro exI conjI) auto
qed

text \<open>
  Claim C9. On shutdown every key the virtual sink reports as held is to be released before
  the virtual device is closed. The cleaner does so (\<open>cleanup_releases_held_axis_keys\<close>);
  the strafer does not: after the press of the left key, the strafer holds key \<open>KEY_A\<close> down
  on its virtual keyboard, and \<open>stop\<close> closes the virtual keyboard without a key-up.
\<close>

theorem strafer_stop_closes_with_key_held:
  "(case handle_event default_cfg (new_strafer 2000) (EV_KEY, KEY_A, 1) 0 of
      Inl err \<Rightarrow> False
    | Inr (s, ops) \<Rightarrow>
        ops = [KbWrite EV_KEY KEY_A 1, KbSyn] \<and> held_key_code s = Some KEY_A
        \<and> stop s 1 = [InUngrab 0, InClose 0, KbClose, MouseClose])"
  by (simp add: handle_event_def default_cfg_def new_strafer_def EV_KEY_def EV_REL_def KEY_A_def
       is_key_def apply_mode_def resolve_mode_def press_and_hold_def stop_def Let_def)


section \<open>Properties of the velocity smoothing\<close>










subsection \<open>Strict approach and contraction\<close>


















subsection \<open>The step in double precision\<close>





















section \<open>Properties of the speed ramp\<close>

lemma py_index_in_range:
  "0 \<le> i \<Longrightarrow> i < int (length xs) \<Longrightarrow> py_index xs i = Inr (xs ! nat i)"
  by (simp add: py_index_def)

lemma segment_end_of_total:
  "- 1 \<le> i \<Longrightarrow> \<exists>e. segment_end_of cfg s now i = Inr e"
  by (simp add: segment_end_of_def py_index_in_range split: prod.split)

lemma segment_fields_props:
  "seg_idx (segment_fields cfg s now i a e v) = i"
  "seg_target (segment_fields cfg s now i a e v) = Target v"
  "1 \<le> seg_ticks_total (segment_fields cfg s now i a e v)"
  "current_speed (segment_fields cfg s now i a e v) = current_speed s"
  "space_down (segment_fields cfg s now i a e v) = space_down s"
  "space_original_speed (segment_fields cfg s now i a e v) = space_original_speed s"
  "space_press_t (segment_fields cfg s now i a e v) = space_press_t s"
  by (simp_all add: segment_fields_def Let_def)

declare space_prepare_segment.simps [simp del]

lemma prepare_total:
  "- 1 \<le> seg_idx s \<Longrightarrow>
   \<exists>s'. space_prepare_segment cfg s now = Inr s' \<and> ramp_wf s' \<and> ramp_kept s s'
        \<and> target_from cfg s' \<and> current_speed s' = current_speed s"
proof (induction cfg s now rule: space_prepare_segment.induct)
  case (1 cfg s now)
  show ?case
  proof (cases "int (length (space_sched cfg)) \<le> seg_idx s + 1")
    case True
    then show ?thesis using "1.prems"
      by (subst space_prepare_segment.simps) (simp add: ramp_wf_def ramp_kept_def target_from_def)
  next
    case False
    have ix: "py_index (space_sched cfg) (seg_idx s + 1) = Inr (space_sched cfg ! nat (seg_idx s + 1))"
      using False "1.prems" by (intro py_index_in_range) simp_all
    obtain x y where xy: "space_sched cfg ! nat (seg_idx s + 1) = (x, y)" by (cases "space_sched cfg ! nat (seg_idx s + 1)")
    have mem: "y \<in> snd ` set (space_sched cfg)"
    proof -
      have "nat (seg_idx s + 1) < length (space_sched cfg)" using False "1.prems" by simp
      then have "(x, y) \<in> set (space_sched cfg)" using xy nth_mem by metis
      then show ?thesis by force
    qed
    obtain e where e: "segment_end_of cfg s now (seg_idx s + 1) = Inr e"
      using segment_end_of_total [of "seg_idx s + 1" cfg s now] "1.prems" by auto
    show ?thesis
    proof (cases "now < space_press_t s + x")
      case True
      then show ?thesis using False ix xy "1.prems"
        by (subst space_prepare_segment.simps) (simp add: ramp_wf_def ramp_kept_def target_from_def)
    next
      case nw: False
      show ?thesis
      proof (cases "\<not> space_allow_up cfg \<and> current_speed s < y")
        case True
        have "\<exists>s'. space_prepare_segment cfg (s\<lparr>seg_idx := seg_idx s + 1\<rparr>) now = Inr s' \<and> ramp_wf s'
             \<and> ramp_kept (s\<lparr>seg_idx := seg_idx s + 1\<rparr>) s' \<and> target_from cfg s'
             \<and> current_speed s' = current_speed (s\<lparr>seg_idx := seg_idx s + 1\<rparr>)"
          using "1.IH"(1) [OF False ix xy [symmetric] nw e True] "1.prems" by simp
        then show ?thesis using False ix xy nw e True
          by (subst space_prepare_segment.simps) (simp add: ramp_kept_def)
      next
        case nskip: False
        let ?sf = "segment_fields cfg s now (seg_idx s + 1) (space_press_t s + x) e y"
        show ?thesis
        proof (cases "\<not> space_allow_up cfg \<and> current_speed s \<le> y + 1 / 10 ^ 9")
          case True
          have "\<exists>s'. space_prepare_segment cfg ?sf now = Inr s' \<and> ramp_wf s'
             \<and> ramp_kept ?sf s' \<and> target_from cfg s' \<and> current_speed s' = current_speed ?sf"
            using "1.IH"(2) [OF False ix xy [symmetric] nw e nskip True] "1.prems"
            by (simp add: segment_fields_props)
          then show ?thesis using False ix xy nw e nskip True
            by (subst space_prepare_segment.simps) (simp add: ramp_kept_def segment_fields_props)
        next
          case False2: False
          have "ramp_wf ?sf" "ramp_kept s ?sf" "target_from cfg ?sf"
            using "1.prems" mem by (simp_all add: ramp_wf_def ramp_kept_def target_from_def segment_fields_props)
          then show ?thesis using False ix xy nw e nskip False2
            by (subst space_prepare_segment.simps) (auto simp add: segment_fields_props)
        qed
      qed
    qed
  qed
qed


lemma clamp_floor: "L \<le> v \<Longrightarrow> L \<le> hi \<Longrightarrow> L \<le> clamp v lo hi"
  by (simp add: clamp_def)

lemma tick_body_props:
  "seg_idx (space_tick_body cfg s t) = seg_idx s"
  "seg_target (space_tick_body cfg s t) = seg_target s"
  "seg_ticks_total (space_tick_body cfg s t) = seg_ticks_total s"
  "seg_tick_idx (space_tick_body cfg s t) = seg_tick_idx s + 1"
  "space_down (space_tick_body cfg s t) = space_down s"
  "space_original_speed (space_tick_body cfg s t) = space_original_speed s"
  by (simp_all add: space_tick_body_def Let_def)

lemma tick_body_floor:
  assumes "\<not> space_allow_up cfg" "L \<le> MAX_SPEED_PX_PER_SEC cfg" "L \<le> t"
  shows "L \<le> current_speed (space_tick_body cfg s t)"
  using assms by (simp add: space_tick_body_def Let_def clamp_floor)

declare space_tick_loop.simps [simp del]

lemma loop_total:
  "ramp_wf s \<Longrightarrow>
   \<exists>s'. space_tick_loop cfg s now = Inr s' \<and> seg_idx s' = seg_idx s \<and> seg_target s' = seg_target s
        \<and> seg_ticks_total s' = seg_ticks_total s \<and> ramp_kept s s'
        \<and> (sched_floor cfg L \<and> ramp_floor L s \<longrightarrow> L \<le> current_speed s')"
proof (induction cfg s now rule: space_tick_loop.induct)
  case (1 cfg s now)
  show ?case
  proof (cases "seg_target s")
    case NoTarget
    then show ?thesis
      by (subst space_tick_loop.simps) (simp add: ramp_kept_def ramp_floor_def)
  next
    case (Wait t)
    then show ?thesis
      by (subst space_tick_loop.simps) (simp add: ramp_kept_def ramp_floor_def)
  next
    case (Target t)
    show ?thesis
    proof (cases "seg_tick_idx s < seg_ticks_total s \<and> next_tick_time s \<le> now")
      case False
      then show ?thesis using Target
        by (subst space_tick_loop.simps) (auto simp add: ramp_kept_def ramp_floor_def)
    next
      case True
      have nz: "seg_ticks_total s \<noteq> 0" using "1.prems" Target by (simp add: ramp_wf_def)
      let ?b = "space_tick_body cfg s t"
      have wfb: "ramp_wf ?b" using "1.prems" Target by (simp add: ramp_wf_def tick_body_props)
      from "1.IH" [OF Target True nz wfb]
      obtain s' where s': "space_tick_loop cfg ?b now = Inr s'" "seg_idx s' = seg_idx ?b"
        "seg_target s' = seg_target ?b" "seg_ticks_total s' = seg_ticks_total ?b" "ramp_kept ?b s'"
        "sched_floor cfg L \<and> ramp_floor L ?b \<longrightarrow> L \<le> current_speed s'"
        by blast
      have fl: "ramp_floor L ?b" if "sched_floor cfg L" "ramp_floor L s"
        using that Target tick_body_floor [of cfg L t s]
        by (simp add: ramp_floor_def sched_floor_def tick_body_props)
      have "space_tick_loop cfg s now = Inr s'"
        using Target True nz s'(1) by (subst space_tick_loop.simps) simp
      then show ?thesis using s' fl by (auto simp add: tick_body_props ramp_kept_def)
    qed
  qed
qed

lemma sched_floor_target:
  "sched_floor cfg L \<Longrightarrow> target_from cfg s \<Longrightarrow> L \<le> current_speed s \<Longrightarrow> ramp_floor L s"
  by (auto simp add: sched_floor_def target_from_def ramp_floor_def list_all_iff split: seg_target.split)

lemma tick_total:
  assumes "ramp_wf s"
  shows "\<exists>s'. space_tick cfg s now = Inr s' \<and> ramp_wf s' \<and> ramp_kept s s'
        \<and> (sched_floor cfg L \<and> ramp_floor L s \<longrightarrow> ramp_floor L s')"
proof (cases "space_down s")
  case False
  then show ?thesis using assms by (simp add: space_tick_def ramp_kept_def)
next
  case sd: True
  have idx: "- 1 \<le> seg_idx s" using assms by (simp add: ramp_wf_def)
  from prepare_total [OF idx, of cfg now]
  obtain p where p: "space_prepare_segment cfg s now = Inr p" "ramp_wf p" "ramp_kept s p"
    "target_from cfg p" "current_speed p = current_speed s" by blast
  have pfl: "sched_floor cfg L \<and> ramp_floor L s \<longrightarrow> ramp_floor L p"
    using p(4,5) sched_floor_target [of cfg L p] by (auto simp: ramp_floor_def)
  show ?thesis
  proof (cases "seg_target s")
    case (Wait t)
    then show ?thesis using sd p pfl assms by (simp add: space_tick_def ramp_kept_def)
  next
    case NoTarget
    show ?thesis
    proof (cases "seg_idx s + 1 < int (length (space_sched cfg))")
      case True
      then show ?thesis using sd p pfl NoTarget by (simp add: space_tick_def)
    next
      case False
      have "space_tick_loop cfg s now = Inr s"
        using NoTarget by (subst space_tick_loop.simps) simp
      then show ?thesis using sd NoTarget False assms by (simp add: space_tick_def ramp_kept_def)
    qed
  next
    case (Target t)
    from loop_total [OF assms, of cfg now L]
    obtain s1 where s1: "space_tick_loop cfg s now = Inr s1" "seg_idx s1 = seg_idx s"
      "seg_target s1 = seg_target s" "seg_ticks_total s1 = seg_ticks_total s" "ramp_kept s s1"
      "sched_floor cfg L \<and> ramp_floor L s \<longrightarrow> L \<le> current_speed s1" by blast
    show ?thesis
    proof (cases "seg_ticks_total s1 \<le> seg_tick_idx s1")
      case False
      have "space_tick cfg s now = Inr s1"
        using sd Target s1 False by (simp add: space_tick_def)
      moreover have "ramp_wf s1" using assms s1 Target by (simp add: ramp_wf_def)
      moreover have "sched_floor cfg L \<and> ramp_floor L s \<longrightarrow> ramp_floor L s1"
        using s1 by (simp add: ramp_floor_def)
      ultimately show ?thesis using s1(5) by simp
    next
      case True
      let ?c = "s1\<lparr>current_speed := clamp t (MIN_SPEED_PX_PER_SEC cfg) (MAX_SPEED_PX_PER_SEC cfg)\<rparr>"
      have "- 1 \<le> seg_idx ?c" using idx s1 by simp
      from prepare_total [OF this, of cfg now]
      obtain q where q: "space_prepare_segment cfg ?c now = Inr q" "ramp_wf q" "ramp_kept ?c q"
        "target_from cfg q" "current_speed q = current_speed ?c" by blast
      have "space_tick cfg s now = Inr q"
        using sd Target s1 True q(1) by (simp add: space_tick_def)
      moreover have "ramp_kept s q" using s1(5) q(3) by (simp add: ramp_kept_def)
      moreover have "sched_floor cfg L \<and> ramp_floor L s \<longrightarrow> ramp_floor L q"
      proof
        assume a: "sched_floor cfg L \<and> ramp_floor L s"
        then have "L \<le> t" using Target by (simp add: ramp_floor_def)
        then have "L \<le> current_speed q"
          using a q(5) clamp_floor [of L t "MAX_SPEED_PX_PER_SEC cfg" "MIN_SPEED_PX_PER_SEC cfg"]
          by (simp add: sched_floor_def)
        then show "ramp_floor L q" using a q(4) sched_floor_target by blast
      qed
      ultimately show ?thesis using q(2) by simp
    qed
  qed
qed


lemma start_total:
  "\<exists>s'. space_start cfg s now = Inr s'
        \<and> (space_sched cfg = [] \<longrightarrow> s' = s)
        \<and> (space_sched cfg \<noteq> [] \<longrightarrow>
             ramp_wf s' \<and> target_from cfg s' \<and> space_down s'
             \<and> space_original_speed s'
                 = (if space_original_speed s = 0 then current_speed s else space_original_speed s))"
proof (cases "space_sched cfg")
  case Nil
  then show ?thesis by (simp add: space_start_def)
next
  case (Cons p ps)
  obtain t v where p: "p = (t, v)" by (cases p)
  define s4 where "s4 =
     (let s1 = s\<lparr>space_press_t := now, space_down := True\<rparr>;
          s2 = (if space_original_speed s1 = 0
                then s1\<lparr>space_original_speed := current_speed s1\<rparr> else s1);
          s3 = space_reset s2
      in if t \<le> 1 / 10 ^ 6 then
           (let tgt = (if space_allow_up cfg \<or> v \<le> current_speed s3 then v else current_speed s3)
            in s3\<lparr>current_speed :=
                     clamp tgt (MIN_SPEED_PX_PER_SEC cfg) (MAX_SPEED_PX_PER_SEC cfg),
                   seg_idx := 0\<rparr>)
         else s3\<lparr>seg_idx := - 1\<rparr>)"
  have st: "space_start cfg s now = space_prepare_segment cfg s4 now"
    using Cons p by (simp add: space_start_def s4_def Let_def)
  have i4: "- 1 \<le> seg_idx s4" by (simp add: s4_def Let_def)
  have d4: "space_down s4" by (simp add: s4_def Let_def space_reset_def)
  have o4: "space_original_speed s4
            = (if space_original_speed s = 0 then current_speed s else space_original_speed s)"
    by (simp add: s4_def Let_def space_reset_def)
  from prepare_total [OF i4, of cfg now]
  obtain s' where s': "space_prepare_segment cfg s4 now = Inr s'" "ramp_wf s'" "ramp_kept s4 s'"
    "target_from cfg s'" by blast
  show ?thesis using st s' d4 o4 Cons by (simp add: ramp_kept_def)
qed

lemma ramp_same_wf: "ramp_same s s' \<Longrightarrow> ramp_wf s \<Longrightarrow> ramp_wf s'"
  by (simp add: ramp_same_def ramp_wf_def split: seg_target.splits)

lemma apply_mode_same: "ramp_same s (fst (apply_mode cfg s m now))"
  by (simp add: apply_mode_def press_and_hold_def release_hold_def ramp_same_def Let_def
        split: option.split direction.split)

lemma bump_speed_same: "space_down s \<Longrightarrow> ramp_same s (bump_speed cfg s n)"
  by (simp add: bump_speed_def ramp_same_def Let_def)

lemma space_press_active:
  assumes "ramp_wf s" "space_down s" "space_original_speed s \<noteq> 0" "val \<noteq> 0"
  shows "\<exists>s' ops. space_key_event cfg s val now = Inr (s', ops) \<and> ramp_wf s' \<and> space_down s'
           \<and> space_original_speed s' = space_original_speed s"
proof -
  from start_total [of cfg s now]
  obtain p where p: "space_start cfg s now = Inr p" "space_sched cfg = [] \<longrightarrow> p = s"
    "space_sched cfg \<noteq> [] \<longrightarrow> ramp_wf p \<and> target_from cfg p \<and> space_down p
       \<and> space_original_speed p
           = (if space_original_speed s = 0 then current_speed s else space_original_speed s)"
    by blast
  have "ramp_wf p \<and> space_down p \<and> space_original_speed p = space_original_speed s"
    using p(2,3) assms by (cases "space_sched cfg = []") simp_all
  then show ?thesis using p(1) assms by (simp add: space_key_event_def)
qed


lemma ramp_same_refl: "ramp_same s s"
  by (simp add: ramp_same_def)

lemma ramp_same_upd:
  "ramp_same s (s\<lparr>a_down := a\<rparr>)" "ramp_same s (s\<lparr>d_down := a\<rparr>)"
  "ramp_same s (s\<lparr>a_down := a, last_pressed := lp\<rparr>)"
  "ramp_same s (s\<lparr>d_down := a, last_pressed := lp\<rparr>)"
  "ramp_same s (s\<lparr>a_down := a, d_down := b, last_pressed := lp\<rparr>)"
  "ramp_same s (s\<lparr>speedup := a\<rparr>)" "ramp_same s (s\<lparr>slowdown := a\<rparr>)"
  "ramp_same s (stop_motion_only s a)" "ramp_same s (toggle_wheel_adjust s)"
  by (simp_all add: ramp_same_def stop_motion_only_def toggle_wheel_adjust_def)

lemma ramp_same_trans: "ramp_same s s1 \<Longrightarrow> ramp_same s1 s2 \<Longrightarrow> ramp_same s s2"
  by (simp add: ramp_same_def)

lemma apply_mode_after: "ramp_same s s0 \<Longrightarrow> ramp_same s (fst (apply_mode cfg s0 m now))"
  using apply_mode_same ramp_same_trans by blast



lemma handle_event_not_key:
  assumes "space_down s" "type \<noteq> EV_KEY"
  shows "case handle_event cfg s (type, code, val) now of
           Inl err \<Rightarrow> False | Inr r \<Rightarrow> ramp_same s (fst r)"
  using assms(2) bump_speed_same [OF assms(1)]
  by (simp add: handle_event_def ramp_same_refl)

lemma handle_event_key:
  assumes "code = space_key cfg \<longrightarrow> code = stop_btn cfg \<or> is_key (key_wheel_t cfg) code"
  shows "case handle_event cfg s (EV_KEY, code, val) now of
           Inl err \<Rightarrow> False | Inr r \<Rightarrow> ramp_same s (fst r)"
proof -
  have k: "EV_KEY \<noteq> EV_REL" by (simp add: EV_KEY_def EV_REL_def)
  consider (stop) "code = stop_btn cfg"
    | (wheel) "code \<noteq> stop_btn cfg" "is_key (key_wheel_t cfg) code"
    | (left) "code \<noteq> stop_btn cfg" "\<not> is_key (key_wheel_t cfg) code" "code \<noteq> space_key cfg"
        "code = key_left cfg"
    | (right) "code \<noteq> stop_btn cfg" "\<not> is_key (key_wheel_t cfg) code" "code \<noteq> space_key cfg"
        "code \<noteq> key_left cfg" "code = key_right cfg"
    | (pause) "code \<noteq> stop_btn cfg" "\<not> is_key (key_wheel_t cfg) code" "code \<noteq> space_key cfg"
        "code \<noteq> key_left cfg" "code \<noteq> key_right cfg" "is_key (key_pause cfg) code"
    | (rest) "code \<noteq> stop_btn cfg" "\<not> is_key (key_wheel_t cfg) code" "code \<noteq> space_key cfg"
        "code \<noteq> key_left cfg" "code \<noteq> key_right cfg" "\<not> is_key (key_pause cfg) code"
    using assms by blast
  then show ?thesis
  proof cases
    case stop
    then show ?thesis using k by (simp add: handle_event_def ramp_same_refl ramp_same_upd)
  next
    case wheel
    then show ?thesis using k by (simp add: handle_event_def ramp_same_refl ramp_same_upd)
  next
    case left
    then show ?thesis using k
      by (simp add: handle_event_def Let_def ramp_same_refl ramp_same_upd apply_mode_after)
  next
    case right
    then show ?thesis using k
      by (simp add: handle_event_def Let_def ramp_same_refl ramp_same_upd apply_mode_after)
  next
    case pause
    then show ?thesis using k
      by (simp add: handle_event_def Let_def split_beta ramp_same_refl ramp_same_upd
            apply_mode_after)
  next
    case rest
    then show ?thesis using k
      by (simp add: handle_event_def Let_def ramp_same_refl ramp_same_upd)
  qed
qed


lemma handle_event_active:
  assumes "ramp_wf s" "space_down s" "space_original_speed s \<noteq> 0" "\<not> is_release cfg (Ev e now)"
  shows "\<exists>s' ops. handle_event cfg s e now = Inr (s', ops) \<and> ramp_wf s' \<and> space_down s'
           \<and> space_original_speed s' = space_original_speed s"
proof -
  obtain type code val where e: "e = (type, code, val)" by (cases e)
  have same: "ramp_wf s' \<and> space_down s' \<and> space_original_speed s' = space_original_speed s"
    if "ramp_same s s'" for s'
    using that assms(1,2) ramp_same_wf [of s s'] by (simp add: ramp_same_def)
  have other: ?thesis
    if "case handle_event cfg s e now of Inl err \<Rightarrow> False | Inr r \<Rightarrow> ramp_same s (fst r)"
  proof (cases "handle_event cfg s e now")
    case (Inl a)
    then show ?thesis using that by simp
  next
    case (Inr r)
    then have "ramp_same s (fst r)" using that by simp
    from same [OF this] Inr show ?thesis by (cases r) simp
  qed
  show ?thesis
  proof (cases "type = EV_KEY")
    case False
    from handle_event_not_key [OF assms(2) False, of cfg code val now] other e show ?thesis by simp
  next
    case key: True
    show ?thesis
    proof (cases "code = space_key cfg \<longrightarrow> code = stop_btn cfg \<or> is_key (key_wheel_t cfg) code")
      case True
      from handle_event_key [OF True, of s val now] other e key show ?thesis by simp
    next
      case False
      then have sp: "code = space_key cfg" "code \<noteq> stop_btn cfg" "\<not> is_key (key_wheel_t cfg) code"
        by auto
      have v: "val \<noteq> 0" using assms(4) e key sp by simp
      from space_press_active [OF assms(1-3) v, of cfg now] sp e key show ?thesis
        by (simp add: handle_event_def EV_KEY_def EV_REL_def)
    qed
  qed
qed

lemma run_steps_active:
  "ramp_wf s \<Longrightarrow> space_down s \<Longrightarrow> space_original_speed s \<noteq> 0 \<Longrightarrow>
   \<forall>st\<in>set steps. \<not> is_release cfg st \<Longrightarrow>
   \<exists>s'. run_steps cfg s steps = Inr s' \<and> ramp_wf s' \<and> space_down s'
        \<and> space_original_speed s' = space_original_speed s"
proof (induction steps arbitrary: s)
  case Nil
  then show ?case by simp
next
  case (Cons st steps)
  show ?case
  proof (cases st)
    case (Ev e now)
    from handle_event_active [OF Cons.prems(1-3), of cfg e now] Cons.prems(4) Ev
    obtain s1 ops where s1: "handle_event cfg s e now = Inr (s1, ops)" "ramp_wf s1" "space_down s1"
      "space_original_speed s1 = space_original_speed s" by auto
    from Cons.IH [OF s1(2,3)] s1(4) Cons.prems(3,4)
    obtain s' where "run_steps cfg s1 steps = Inr s'" "ramp_wf s'" "space_down s'"
      "space_original_speed s' = space_original_speed s1" by auto
    then show ?thesis using Ev s1 by simp
  next
    case (Tick now)
    from tick_total [OF Cons.prems(1), of cfg now 0]
    obtain s1 where s1: "space_tick cfg s now = Inr s1" "ramp_wf s1" "ramp_kept s s1" by blast
    have k: "space_down s1" "space_original_speed s1 = space_original_speed s"
      using s1(3) Cons.prems(2) by (simp_all add: ramp_kept_def)
    from Cons.IH [OF s1(2) k(1)] k(2) Cons.prems(3,4)
    obtain s' where "run_steps cfg s1 steps = Inr s'" "ramp_wf s'" "space_down s'"
      "space_original_speed s' = space_original_speed s1" by auto
    then show ?thesis using Tick s1 k by simp
  qed
qed

lemma space_stop_result:
  "current_speed (space_stop cfg s)
     = (if 0 < space_original_speed s
        then clamp (space_original_speed s) (MIN_SPEED_PX_PER_SEC cfg) (MAX_SPEED_PX_PER_SEC cfg)
        else current_speed s)"
  "segment_cleared (space_stop cfg s)"
  "\<not> space_down (space_stop cfg s)"
  by (simp_all add: space_stop_def space_reset_def segment_cleared_def Let_def)

text \<open>
  Claim C3, amended. With a non-empty schedule and stop-on-release configured: when the
  ramp key is pressed in the idle state at a positive speed \<open>v\<close>, that speed is recorded;
  whatever ticks and events follow, short of the release of the ramp key (restarts of the
  ramp and wheel adjustments included), the release sets the speed to \<open>v\<close> clamped to the
  configured speed bounds, which is exactly \<open>v\<close> when \<open>v\<close> lies within them, not to
  the ramp's current value; it clears all segment state. No step of such a run raises.
\<close>

theorem release_restores_speed_of_activation:
  assumes "space_sched cfg \<noteq> []" and "SPACE_STOP_ON_RELEASE cfg" and "\<not> space_down s"
    and "space_original_speed s = 0 \<or> space_original_speed s = current_speed s"
    and "0 < current_speed s"
    and "\<forall>st\<in>set steps. \<not> is_release cfg st"
  shows "\<exists>s1 ops1 s2 s3 ops3.
           space_key_event cfg s 1 t_press = Inr (s1, ops1)
         \<and> space_original_speed s1 = current_speed s
         \<and> run_steps cfg s1 steps = Inr s2
         \<and> space_key_event cfg s2 0 t_release = Inr (s3, ops3)
         \<and> current_speed s3
             = clamp (current_speed s) (MIN_SPEED_PX_PER_SEC cfg) (MAX_SPEED_PX_PER_SEC cfg)
         \<and> (MIN_SPEED_PX_PER_SEC cfg \<le> current_speed s
              \<and> current_speed s \<le> MAX_SPEED_PX_PER_SEC cfg
            \<longrightarrow> current_speed s3 = current_speed s)
         \<and> segment_cleared s3 \<and> \<not> space_down s3"
proof -
  from start_total [of cfg s t_press] assms(1)
  obtain s1 where s1: "space_start cfg s t_press = Inr s1" "ramp_wf s1" "space_down s1"
    "space_original_speed s1
       = (if space_original_speed s = 0 then current_speed s else space_original_speed s)"
    by auto
  have o1: "space_original_speed s1 = current_speed s" using s1(4) assms(4) by auto
  define ops1 where "ops1 = (if SPACE_MIRROR_TO_GAME cfg
                             then [KbWrite EV_KEY (space_key cfg) 1, KbSyn] else [])"
  have press: "space_key_event cfg s 1 t_press = Inr (s1, ops1)"
    using s1(1) assms(3) by (simp add: space_key_event_def ops1_def)
  have nz: "space_original_speed s1 \<noteq> 0" using o1 assms(5) by simp
  from run_steps_active [OF s1(2,3) nz assms(6)]
  obtain s2 where s2: "run_steps cfg s1 steps = Inr s2" "space_original_speed s2 = space_original_speed s1"
    by blast
  define ops3 where "ops3 = (if SPACE_MIRROR_TO_GAME cfg
                             then [KbWrite EV_KEY (space_key cfg) 0, KbSyn] else [])"
  have rel: "space_key_event cfg s2 0 t_release = Inr (space_stop cfg s2, ops3)"
    using assms(2) by (simp add: space_key_event_def ops3_def)
  have cs: "current_speed (space_stop cfg s2)
             = clamp (current_speed s) (MIN_SPEED_PX_PER_SEC cfg) (MAX_SPEED_PX_PER_SEC cfg)"
    using s2(2) o1 assms(5) by (simp add: space_stop_result)
  have inr: "MIN_SPEED_PX_PER_SEC cfg \<le> current_speed s \<and> current_speed s \<le> MAX_SPEED_PX_PER_SEC cfg
            \<longrightarrow> current_speed (space_stop cfg s2) = current_speed s"
    unfolding cs by (simp add: clamp_def)
  show ?thesis
    using press o1 s2(1) rel cs inr space_stop_result(2,3) [of cfg s2] by blast
qed

theorem release_restores_speed_of_activation_witness:
  "space_sched default_cfg \<noteq> [] \<and> SPACE_STOP_ON_RELEASE default_cfg
   \<and> \<not> space_down (new_strafer 2000)
   \<and> (space_original_speed (new_strafer 2000) = 0
       \<or> space_original_speed (new_strafer 2000) = current_speed (new_strafer 2000))
   \<and> 0 < current_speed (new_strafer 2000)
   \<and> list_all (\<lambda>st. \<not> is_release default_cfg st)
        [Tick 1, Ev (EV_REL, REL_WHEEL, 1) (3 / 2), Tick 3]
   \<and> (\<exists>s1 ops1 s2 s3 ops3.
           space_key_event default_cfg (new_strafer 2000) 1 0 = Inr (s1, ops1)
         \<and> space_original_speed s1 = current_speed (new_strafer 2000)
         \<and> run_steps default_cfg s1 [Tick 1, Ev (EV_REL, REL_WHEEL, 1) (3 / 2), Tick 3] = Inr s2
         \<and> space_key_event default_cfg s2 0 (7 / 2) = Inr (s3, ops3)
         \<and> current_speed s3 = 2000
         \<and> segment_cleared s3 \<and> \<not> space_down s3)"
proof -
  have h1: "space_sched default_cfg \<noteq> []" by (simp add: default_cfg_def space_sched_def)
  have h2: "SPACE_STOP_ON_RELEASE default_cfg" by (simp add: default_cfg_def)
  have h3: "\<not> space_down (new_strafer 2000)" by (simp add: new_strafer_def)
  have h4: "space_original_speed (new_strafer 2000) = 0
       \<or> space_original_speed (new_strafer 2000) = current_speed (new_strafer 2000)"
    by (simp add: new_strafer_def)
  have h5: "0 < current_speed (new_strafer 2000)" by (simp add: new_strafer_def)
  have h6: "\<forall>st\<in>set [Tick 1, Ev (EV_REL, REL_WHEEL, 1) (3 / 2), Tick 3]. \<not> is_release default_cfg st"
    by (simp add: EV_REL_def EV_KEY_def)
  have r: "MIN_SPEED_PX_PER_SEC default_cfg \<le> current_speed (new_strafer 2000)
           \<and> current_speed (new_strafer 2000) \<le> MAX_SPEED_PX_PER_SEC default_cfg"
    by (simp add: default_cfg_def new_strafer_def)
  have c: "current_speed (new_strafer 2000) = 2000" by (simp add: new_strafer_def)
  from release_restores_speed_of_activation [OF h1 h2 h3 h4 h5 h6, of 0 "7 / 2"]
  obtain s1 ops1 s2 s3 ops3 where
    "space_key_event default_cfg (new_strafer 2000) 1 0 = Inr (s1, ops1)"
    "space_original_speed s1 = current_speed (new_strafer 2000)"
    "run_steps default_cfg s1 [Tick 1, Ev (EV_REL, REL_WHEEL, 1) (3 / 2), Tick 3] = Inr s2"
    "space_key_event default_cfg s2 0 (7 / 2) = Inr (s3, ops3)"
    "MIN_SPEED_PX_PER_SEC default_cfg \<le> current_speed (new_strafer 2000)
              \<and> current_speed (new_strafer 2000) \<le> MAX_SPEED_PX_PER_SEC default_cfg
            \<longrightarrow> current_speed s3 = current_speed (new_strafer 2000)"
    "segment_cleared s3" "\<not> space_down s3"
    by blast
  then show ?thesis using h1 h2 h3 h4 h5 h6 r c by (auto simp del: set_simps)
qed

lemmas ramp_eval =
  run_steps.simps handle_event_def space_key_event_def space_start_def space_stop_def
  space_reset_def space_tick_def space_tick_loop.simps space_tick_body_def
  space_prepare_segment.simps segment_end_of_def segment_fields_def py_index_def
  space_sched_def default_cfg_def ramp_cfg_def new_strafer_def clamp_def is_key_def
  EV_KEY_def EV_REL_def REL_WHEEL_def REL_WHEEL_HI_RES_def bump_speed_def Let_def

text \<open>
  Claim C3, as stated, fails. With the default configuration and a configured base speed
  of 50, below the lower speed bound of 100, the press of the ramp key records 50; the
  release restores the clamped value 100, not the recorded one.
\<close>

theorem release_clamps_recorded_speed:
  "map_sum id space_original_speed
     (run_steps default_cfg (new_strafer 50) [Ev (EV_KEY, 57, 1) 0]) = Inr 50
   \<and> map_sum id current_speed
     (run_steps default_cfg (new_strafer 50) [Ev (EV_KEY, 57, 1) 0, Ev (EV_KEY, 57, 0) 1]) = Inr 100"
  by (simp add: ramp_eval)

text \<open>
  Claim C4, as stated, fails. With the schedule of the claim, a tick of one second and a
  speed of 3000 before the press at time 0, the press sets the speed to 2500, and after the
  ticks at times 1 and 2 the speed is still 2500, not 2200: the checkpoint at 2 s is where
  the descent to 2200 begins, and it ends at the time of the next checkpoint.
\<close>

theorem ramp_still_at_first_value_at_two:
  "map_sum id current_speed
     (run_steps ramp_cfg (new_strafer 3000) [Ev (EV_KEY, 57, 1) 0]) = Inr 2500
   \<and> map_sum id current_speed
     (run_steps ramp_cfg (new_strafer 3000) [Ev (EV_KEY, 57, 1) 0, Tick 1, Tick 2]) = Inr 2500"
  by (simp add: ramp_eval)

text \<open>
  With the default base speed of 2000 and the default policy of no increase, the press
  does not raise the speed to 2500, and the checkpoint of 2200 is skipped as well.
\<close>

lemma ramp_never_raises_default_speed:
  "map_sum id current_speed
     (run_steps ramp_cfg (new_strafer 2000) [Ev (EV_KEY, 57, 1) 0]) = Inr 2000
   \<and> map_sum id current_speed
     (run_steps ramp_cfg (new_strafer 2000) [Ev (EV_KEY, 57, 1) 0, Tick 1, Tick 2]) = Inr 2000"
  by (simp add: ramp_eval)

text \<open>The speed after the press and after each of the ticks at 1, 2, 3, 4 and 5 s.\<close>

lemma ramp_trace_whole_seconds:
  "map (\<lambda>n. map_sum id current_speed
           (run_steps ramp_cfg (new_strafer 3000) (Ev (EV_KEY, 57, 1) 0 # map Tick (take n [1, 2, 3, 4, 5]))))
     [0, 1, 2, 3, 4, 5]
   = [Inr 2500, Inr 2500, Inr 2500, Inr 2350, Inr 2200, Inr 1800]"
  by (simp add: ramp_eval)


lemma ramp_cfg_fields:
  "space_sched ramp_cfg = [(0, 2500), (2, 2200), (4, 1800)]"
  "space_allow_up ramp_cfg = False" "space_tick_s ramp_cfg = 1"
  "MIN_SPEED_PX_PER_SEC ramp_cfg = 100" "MAX_SPEED_PX_PER_SEC ramp_cfg = 20000"
  by (simp_all add: ramp_cfg_def default_cfg_def space_sched_def)

lemma ramp_cfg_floor: "sched_floor ramp_cfg 1800"
  by (simp add: sched_floor_def ramp_cfg_fields)

lemma holds_2500_tick:
  assumes "holds_2500 s" "t < 3"
  shows "\<exists>s'. space_tick ramp_cfg s t = Inr s' \<and> holds_2500 s'"
proof -
  from assms(1) consider
      (wait) "space_down s" "current_speed s = 2500" "space_press_t s = 0" "seg_idx s = 0"
        "seg_target s = Wait 2"
    | (seg) "space_down s" "current_speed s = 2500" "seg_target s = Target 2200"
        "seg_tick_idx s = 0" "seg_ticks_total s = 2" "next_tick_time s = 3"
    by (auto simp: holds_2500_def)
  then show ?thesis
  proof cases
    case wait
    show ?thesis
    proof (cases "t < 2")
      case True
      then show ?thesis using wait assms(1) by (simp add: space_tick_def)
    next
      case False
      have fl: "\<lfloor>t - 2\<rfloor> = 0" using False assms(2) by (simp add: floor_eq_iff)
      have "space_prepare_segment ramp_cfg s t = Inr (segment_fields ramp_cfg s t 1 2 4 2200)"
        using wait False
        by (subst space_prepare_segment.simps)
           (simp add: ramp_cfg_fields py_index_def segment_end_of_def)
      moreover have "holds_2500 (segment_fields ramp_cfg s t 1 2 4 2200)"
        using wait False fl
        by (simp add: holds_2500_def segment_fields_def ramp_cfg_fields Let_def)
      ultimately show ?thesis using wait False by (simp add: space_tick_def)
    qed
  next
    case seg
    have "space_tick_loop ramp_cfg s t = Inr s"
      using seg assms(2) by (subst space_tick_loop.simps) simp
    then show ?thesis using seg assms(1) by (simp add: space_tick_def)
  qed
qed

lemma holds_2500_run:
  "holds_2500 s \<Longrightarrow> list_all (\<lambda>t. t < 3) ts \<Longrightarrow>
   \<exists>s'. run_steps ramp_cfg s (map Tick ts) = Inr s' \<and> holds_2500 s'"
proof (induction ts arbitrary: s)
  case Nil
  then show ?case by simp
next
  case (Cons t ts)
  from holds_2500_tick [OF Cons.prems(1), of t] Cons.prems(2)
  obtain s1 where s1: "space_tick ramp_cfg s t = Inr s1" "holds_2500 s1" by auto
  from Cons.IH [OF s1(2)] Cons.prems(2)
  obtain s' where "run_steps ramp_cfg s1 (map Tick ts) = Inr s'" "holds_2500 s'" by auto
  then show ?case using s1(1) by simp
qed

lemma run_ticks_floor:
  "ramp_wf s \<Longrightarrow> sched_floor cfg L \<Longrightarrow> ramp_floor L s \<Longrightarrow>
   \<exists>s'. run_steps cfg s (map Tick ts) = Inr s' \<and> ramp_wf s' \<and> ramp_floor L s'"
proof (induction ts arbitrary: s)
  case Nil
  then show ?case by simp
next
  case (Cons t ts)
  from tick_total [OF Cons.prems(1), of cfg t L] Cons.prems(2,3)
  obtain s1 where s1: "space_tick cfg s t = Inr s1" "ramp_wf s1" "ramp_floor L s1" by blast
  from Cons.IH [OF s1(2) Cons.prems(2) s1(3)]
  obtain s' where "run_steps cfg s1 (map Tick ts) = Inr s'" "ramp_wf s'" "ramp_floor L s'" by blast
  then show ?case using s1(1) by simp
qed

lemma ramp_start_state:
  assumes "2500 \<le> current_speed s"
  shows "space_start ramp_cfg s 0
         = Inr (s\<lparr>space_press_t := 0, space_down := True,
                   space_original_speed :=
                     (if space_original_speed s = 0 then current_speed s
                      else space_original_speed s),
                   seg_idx := 0, seg_start_t := 2, seg_end_t := 2, seg_start_speed := 0,
                   seg_target := Wait 2, seg_ticks_total := 0, seg_tick_idx := 0,
                   next_tick_time := 2, current_speed := 2500\<rparr>)"
  using assms
  by (simp add: space_start_def ramp_cfg_fields space_reset_def clamp_def Let_def
        space_prepare_segment.simps py_index_def)


text \<open>
  Claim C4, amended. With the schedule [(0, 2500), (2, 2200), (4, 1800)], a tick of one
  second, the policy of no increase, the speed bounds 100 and 20000 and a speed of at least
  2500 before the press at time 0: the press sets the speed to 2500 at once; the speed is
  still exactly 2500 after any ticks at times before 3 s (so at 2 s, where the descent to
  2200 only begins); after any ticks whatsoever the speed is at least 1800, the target of
  the last checkpoint, and no tick raises; with one tick per second the speed is 2350 at
  3 s, exactly 2200 at 4 s and exactly 1800 at 5 s.
\<close>

theorem ramp_three_checkpoints:
  assumes "2500 \<le> current_speed s"
  shows "\<exists>s1. space_start ramp_cfg s 0 = Inr s1 \<and> current_speed s1 = 2500
     \<and> (\<forall>ts. list_all (\<lambda>t. t < 3) ts \<longrightarrow>
            map_sum id current_speed (run_steps ramp_cfg s1 (map Tick ts)) = Inr 2500)
     \<and> (\<forall>ts. \<exists>s2. run_steps ramp_cfg s1 (map Tick ts) = Inr s2 \<and> 1800 \<le> current_speed s2)
     \<and> map_sum id current_speed (run_steps ramp_cfg s1 (map Tick [1, 2, 3])) = Inr 2350
     \<and> map_sum id current_speed (run_steps ramp_cfg s1 (map Tick [1, 2, 3, 4])) = Inr 2200
     \<and> map_sum id current_speed (run_steps ramp_cfg s1 (map Tick [1, 2, 3, 4, 5])) = Inr 1800"
proof -
  define s1 where "s1 = s\<lparr>space_press_t := 0, space_down := True,
                   space_original_speed :=
                     (if space_original_speed s = 0 then current_speed s
                      else space_original_speed s),
                   seg_idx := 0, seg_start_t := 2, seg_end_t := 2, seg_start_speed := 0,
                   seg_target := Wait 2, seg_ticks_total := 0, seg_tick_idx := 0,
                   next_tick_time := 2, current_speed := 2500\<rparr>"
  have st: "space_start ramp_cfg s 0 = Inr s1"
    unfolding s1_def by (rule ramp_start_state [OF assms])
  have cs: "current_speed s1 = 2500" by (simp add: s1_def)
  have h: "holds_2500 s1" by (simp add: holds_2500_def s1_def)
  have wf: "ramp_wf s1" by (simp add: ramp_wf_def s1_def)
  have fl: "ramp_floor 1800 s1" by (simp add: ramp_floor_def s1_def)
  have a: "map_sum id current_speed (run_steps ramp_cfg s1 (map Tick ts)) = Inr 2500"
    if "list_all (\<lambda>t. t < 3) ts" for ts
  proof -
    from holds_2500_run [OF h that]
    obtain s' where "run_steps ramp_cfg s1 (map Tick ts) = Inr s'" "holds_2500 s'" by blast
    then show ?thesis by (simp add: holds_2500_def)
  qed
  have b: "\<exists>s2. run_steps ramp_cfg s1 (map Tick ts) = Inr s2 \<and> 1800 \<le> current_speed s2" for ts
    using run_ticks_floor [OF wf ramp_cfg_floor fl, of ts] by (auto simp: ramp_floor_def)
  have c: "map_sum id current_speed (run_steps ramp_cfg s1 (map Tick [1, 2, 3])) = Inr 2350"
    by (simp add: s1_def ramp_eval)
  have d: "map_sum id current_speed (run_steps ramp_cfg s1 (map Tick [1, 2, 3, 4])) = Inr 2200"
    by (simp add: s1_def ramp_eval)
  have e: "map_sum id current_speed (run_steps ramp_cfg s1 (map Tick [1, 2, 3, 4, 5])) = Inr 1800"
    by (simp add: s1_def ramp_eval)
  show ?thesis using st cs a b c d e by blast
qed

theorem ramp_three_checkpoints_witness:
  "2500 \<le> current_speed (new_strafer 3000)
   \<and> (\<exists>s1. space_start ramp_cfg (new_strafer 3000) 0 = Inr s1 \<and> current_speed s1 = 2500
     \<and> (\<forall>ts. list_all (\<lambda>t. t < 3) ts \<longrightarrow>
            map_sum id current_speed (run_steps ramp_cfg s1 (map Tick ts)) = Inr 2500)
     \<and> (\<forall>ts. \<exists>s2. run_steps ramp_cfg s1 (map Tick ts) = Inr s2 \<and> 1800 \<le> current_speed s2)
     \<and> map_sum id current_speed (run_steps ramp_cfg s1 (map Tick [1, 2, 3])) = Inr 2350
     \<and> map_sum id current_speed (run_steps ramp_cfg s1 (map Tick [1, 2, 3, 4])) = Inr 2200
     \<and> map_sum id current_speed (run_steps ramp_cfg s1 (map Tick [1, 2, 3, 4, 5])) = Inr 1800)"
proof -
  have h: "2500 \<le> current_speed (new_strafer 3000)" by (simp add: new_strafer_def)
  from ramp_three_checkpoints [OF h] h show ?thesis by blast
qed

end
